theory Spec2Isabelle
  imports Complex_Main
begin

section \<open>Common Python values and exceptions\<close>

text \<open>
  Exceptions are values: a method that can raise returns \<open>error + 'a\<close>, \<open>Inl\<close> being
  the raised exception. Python floats are modelled as \<^typ>\<open>real\<close> (no rounding, no NaN),
  and a bound that is \<open>None\<close> in Python is \<^term>\<open>None\<close> of \<^typ>\<open>real option\<close>.
  Console output (\<open>print\<close>) is not part of the state and is left out.
\<close>

datatype hookname =
  pre_iter0 | post_iter0 | post_iter0_after_sync | miditer | enditer | enditer_after_sync |
  post_everything

datatype error =
  KeyError string | AttributeError string | TypeError string | RuntimeError string |
  IndexError | UnboundLocalError string | SolverError string

datatype pyval =
  PNone | PBool bool | PInt int | PFloat real | PStr string | PDict "(string \<times> pyval) list"

text \<open>Python truthiness of an option value, as \<open>if x:\<close> tests it.\<close>

fun truthy :: "pyval \<Rightarrow> bool" where
  "truthy PNone = False"
| "truthy (PBool b) = b"
| "truthy (PInt i) = (i \<noteq> 0)"
| "truthy (PFloat r) = (r \<noteq> 0)"
| "truthy (PStr s) = (s \<noteq> [])"
| "truthy (PDict d) = (d \<noteq> [])"

text \<open>
  Whether \<open>"ipopt" in x\<close> is defined for an option value: a string (substring test) or
  a dict (key test); on the other values it raises \<open>TypeError\<close>.
\<close>

fun supports_in :: "pyval \<Rightarrow> bool" where
  "supports_in (PStr s) = True"
| "supports_in (PDict d) = True"
| "supports_in v = False"

text \<open>The attribute name of a hook.\<close>

fun hook_attr :: "hookname \<Rightarrow> string" where
  "hook_attr pre_iter0 = ''pre_iter0''"
| "hook_attr post_iter0 = ''post_iter0''"
| "hook_attr post_iter0_after_sync = ''post_iter0_after_sync''"
| "hook_attr miditer = ''miditer''"
| "hook_attr enditer = ''enditer''"
| "hook_attr enditer_after_sync = ''enditer_after_sync''"
| "hook_attr post_everything = ''post_everything''"

text \<open>The two members of \<open>sputils.WarmstartStatus\<close> that the spoke passes on.\<close>

datatype WarmstartStatus = USER_SOLUTION | PRIOR_SOLUTION

text \<open>Solver options are a dict or \<open>None\<close>; the code only passes them on.\<close>

type_synonym solver_options = pyval

section \<open>The Lagrangian outer-bound spoke (cylinders/lagrangian\_bounder.py)\<close>

subsection \<open>State\<close>

text \<open>
  The optimisation object \<open>self.opt\<close>: the attributes the spoke reads and writes itself
  are fields; everything else the object holds is \<open>internals\<close>, of a type the model
  leaves open. \<open>extensions\<close> is the extension class the caller gave (or \<open>None\<close>),
  \<open>extobject\<close> lists the hook attributes the extension object has.
\<close>

record 'o opt_state =
  options :: "string \<rightharpoonup> pyval"
  extensions :: "string option"
  extobject :: "hookname list"
  PHIter :: int
  current_solver_options :: solver_options
  iterk_solver_options :: solver_options
  internals :: 'o

text \<open>
  The externally visible calls of a run, in the order the spoke makes them. A call of
  \<open>send_bound\<close> is a report; the other entries record which collaborator was called.
\<close>

datatype event =
  Called_PH_Prep
| Called_reenable_W
| Called_create_solvers
| Called_receive_nonant_bounds
| Called_solve_loop WarmstartStatus bool
| Called_W_from_flat_list "real list"
| Called_Compute_Xbar
| Called_Update_W
| Hook hookname
| KillSignal bool
| UpdateWs bool
| SendBound "real option"

text \<open>
  The spoke object. \<open>world\<close> is whatever lies behind the shared channels (the hub's
  side), \<open>trace\<close> the calls made so far.
\<close>

record ('o, 'w) spoke =
  opt :: "'o opt_state"
  verbose :: pyval
  trivial_bound :: "real option"
  bound :: "real option"
  final_bound :: "real option"
  localWs :: "real list"
  world :: 'w
  trace :: "event list"

text \<open>
  The arguments \<open>lagrangian\<close> passes to \<open>self.opt.solve_loop\<close>.
\<close>

record solve_args =
  sa_solver_options :: solver_options
  sa_dtiming :: bool
  sa_gripe :: bool
  sa_tee :: pyval
  sa_verbose :: pyval
  sa_need_solution :: bool
  sa_warmstart :: WarmstartStatus

text \<open>
  The collaborators of the spoke whose code is outside this file (the optimisation
  object's methods, the base spoke's channel methods, the extension object's hooks)
  are parameters. Methods of \<open>self.opt\<close> transform the optimisation object; channel
  methods read and advance the world. \<open>update_Ws\<close> gives its return value, the spoke's
  \<open>localWs\<close> after the call and the world after it; \<open>got_kill_signal\<close> its return
  value and the world after it. The collaborators are taken to return normally.
\<close>

record ('o, 'w) env =
  PH_Prep :: "bool \<Rightarrow> 'o opt_state \<Rightarrow> 'o opt_state"
  reenable_W :: "'o opt_state \<Rightarrow> 'o opt_state"
  create_solvers :: "'o opt_state \<Rightarrow> 'o opt_state"
  receive_nonant_bounds :: "'w \<Rightarrow> 'o opt_state \<Rightarrow> 'w \<times> 'o opt_state"
  solve_loop :: "solve_args \<Rightarrow> 'o opt_state \<Rightarrow> 'o opt_state"
  Ebound :: "pyval \<Rightarrow> 'o opt_state \<Rightarrow> real option"
  W_from_flat_list :: "real list \<Rightarrow> 'o opt_state \<Rightarrow> 'o opt_state"
  Compute_Xbar :: "pyval \<Rightarrow> 'o opt_state \<Rightarrow> 'o opt_state"
  Update_W :: "pyval \<Rightarrow> 'o opt_state \<Rightarrow> 'o opt_state"
  ext_hook :: "hookname \<Rightarrow> 'o opt_state \<Rightarrow> 'o opt_state"
  got_kill_signal :: "'w \<Rightarrow> bool \<times> 'w"
  update_Ws :: "'w \<Rightarrow> real list \<Rightarrow> bool \<times> real list \<times> 'w"

subsection \<open>Methods\<close>

text \<open>
  Modelled from the spec: \<open>send_bound\<close> of the base spoke (cylinders/spoke.py) is not
  among the sources. By the spec a report is owned by the spoke until transmitted and
  finalize returns "the most recent reported bound": sending stores the value as the
  spoke's current \<open>bound\<close> and transmits it (one \<^term>\<open>SendBound\<close> entry).
\<close>

definition send_bound :: "real option \<Rightarrow> ('o, 'w) spoke \<Rightarrow> ('o, 'w) spoke" where
  "send_bound v st = st\<lparr>bound := v, trace := trace st @ [SendBound v]\<rparr>"

text \<open>
  \<open>self.opt.extobject.h()\<close>: AttributeError when the extension object has no such
  attribute, otherwise the hook runs on the optimisation object.
\<close>

definition call_hook ::
  "('o, 'w) env \<Rightarrow> hookname \<Rightarrow> ('o, 'w) spoke \<Rightarrow> error + ('o, 'w) spoke" where
  "call_hook E h st =
     (if h \<in> set (extobject (opt st))
      then Inr (st\<lparr>opt := ext_hook E h (opt st), trace := trace st @ [Hook h]\<rparr>)
      else Inl (AttributeError (hook_attr h)))"

text \<open>\<open>if extensions: self.opt.extobject.h()\<close>\<close>

definition hook_if ::
  "('o, 'w) env \<Rightarrow> bool \<Rightarrow> hookname \<Rightarrow> ('o, 'w) spoke \<Rightarrow> error + ('o, 'w) spoke" where
  "hook_if E ext h st = (if ext then call_hook E h st else Inr st)"

definition lagrangian_prep :: "('o, 'w) env \<Rightarrow> ('o, 'w) spoke \<Rightarrow> ('o, 'w) spoke" where
  "lagrangian_prep E st =
     (let o1 = PH_Prep E False (opt st);
          o2 = reenable_W E o1;
          o3 = create_solvers E o2
      in st\<lparr>opt := o3,
            trace := trace st @ [Called_PH_Prep, Called_reenable_W, Called_create_solvers]\<rparr>)"

definition lagrangian ::
  "('o, 'w) env \<Rightarrow> bool \<Rightarrow> WarmstartStatus \<Rightarrow> ('o, 'w) spoke
     \<Rightarrow> error + (real option \<times> ('o, 'w) spoke)" where
  "lagrangian E need_solution warmstart st =
     (case receive_nonant_bounds E (world st) (opt st) of (w1, o1) \<Rightarrow>
      (case options o1 ''verbose'' of
         None \<Rightarrow> Inl (KeyError ''verbose'')
       | Some vb \<Rightarrow>
      (case options o1 ''solver_name'' of
         None \<Rightarrow> Inl (KeyError ''solver_name'')
       | Some sn \<Rightarrow>
      (if supports_in sn then
           (let teeme = (case options o1 ''tee-rank0-solves'' of
                           None \<Rightarrow> PBool False | Some t \<Rightarrow> t);
                args = \<lparr>sa_solver_options = current_solver_options o1,
                        sa_dtiming = False, sa_gripe = True, sa_tee = teeme,
                        sa_verbose = vb, sa_need_solution = need_solution,
                        sa_warmstart = warmstart\<rparr>;
                o2 = solve_loop E args o1
            in Inr (Ebound E vb o2,
                    st\<lparr>opt := o2, world := w1,
                       trace := trace st @ [Called_receive_nonant_bounds,
                                            Called_solve_loop warmstart need_solution]\<rparr>))
       else Inl (TypeError ''solver_name'')))))"

definition finalize :: "('o, 'w) env \<Rightarrow> ('o, 'w) spoke \<Rightarrow> real option \<times> ('o, 'w) spoke" where
  "finalize E st =
     (let st1 = st\<lparr>final_bound := bound st\<rparr>;
          st2 = (if extensions (opt st1) \<noteq> None \<and> post_everything \<in> set (extobject (opt st1))
                 then st1\<lparr>opt := ext_hook E post_everything (opt st1),
                          trace := trace st1 @ [Hook post_everything]\<rparr>
                 else st1)
      in (final_bound st2, st2))"

definition set_weights_and_solve ::
  "('o, 'w) env \<Rightarrow> bool \<Rightarrow> WarmstartStatus \<Rightarrow> ('o, 'w) spoke
     \<Rightarrow> error + (real option \<times> ('o, 'w) spoke)" where
  "set_weights_and_solve E need_solution warmstart st =
     lagrangian E need_solution warmstart
       (st\<lparr>opt := W_from_flat_list E (localWs st) (opt st),
          trace := trace st @ [Called_W_from_flat_list (localWs st)]\<rparr>)"

text \<open>\<open>bound = ...; if bound is not None: self.send_bound(bound)\<close>\<close>

definition send_if_not_None :: "real option \<Rightarrow> ('o, 'w) spoke \<Rightarrow> ('o, 'w) spoke" where
  "send_if_not_None b st = (case b of None \<Rightarrow> st | Some v \<Rightarrow> send_bound (Some v) st)"

text \<open>\<open>self.opt.options.get("subgradient_while_waiting", False)\<close> as a condition.\<close>

definition subgradient_while_waiting :: "'o opt_state \<Rightarrow> bool" where
  "subgradient_while_waiting ob =
     (case options ob ''subgradient_while_waiting'' of None \<Rightarrow> False | Some v \<Rightarrow> truthy v)"

definition do_while_waiting_for_new_Ws ::
  "('o, 'w) env \<Rightarrow> bool \<Rightarrow> WarmstartStatus \<Rightarrow> ('o, 'w) spoke \<Rightarrow> error + ('o, 'w) spoke" where
  "do_while_waiting_for_new_Ws E need_solution warmstart st =
     (if subgradient_while_waiting (opt st) then
        (let o1 = Compute_Xbar E (verbose st) (opt st);
             o2 = Update_W E (verbose st) o1;
             st1 = st\<lparr>opt := o2, trace := trace st @ [Called_Compute_Xbar, Called_Update_W]\<rparr>
         in case lagrangian E need_solution warmstart st1 of
              Inl e \<Rightarrow> Inl e
            | Inr (b, st2) \<Rightarrow> Inr (send_if_not_None b st2))
      else Inr st)"

text \<open>
  \<open>main\<close> up to the \<open>while\<close> loop: preparation, the iteration-0 solve and the report of
  the trivial bound. The result carries the local variable \<open>extensions\<close>, which the loop
  goes on using.
\<close>

definition main_iter0 ::
  "('o, 'w) env \<Rightarrow> bool \<Rightarrow> ('o, 'w) spoke \<Rightarrow> error + (bool \<times> ('o, 'w) spoke)" where
  "main_iter0 E need_solution st =
     (case options (opt st) ''verbose'' of
        None \<Rightarrow> Inl (KeyError ''verbose'')
      | Some vb \<Rightarrow>
     (let ext = (extensions (opt st) \<noteq> None);
          st1 = lagrangian_prep E (st\<lparr>verbose := vb\<rparr>)
      in case hook_if E ext pre_iter0 st1 of
           Inl e \<Rightarrow> Inl e
         | Inr st2 \<Rightarrow>
     (case lagrangian E need_solution USER_SOLUTION (st2\<lparr>opt := (opt st2)\<lparr>PHIter := 0\<rparr>\<rparr>) of
           Inl e \<Rightarrow> Inl e
         | Inr (b, st3) \<Rightarrow>
     (case hook_if E ext post_iter0 (st3\<lparr>trivial_bound := b\<rparr>) of
           Inl e \<Rightarrow> Inl e
         | Inr st4 \<Rightarrow>
     (let o5 = (opt st4)\<lparr>PHIter := PHIter (opt st4) + 1\<rparr>;
          o6 = o5\<lparr>current_solver_options := iterk_solver_options o5\<rparr>;
          st6 = send_bound (trivial_bound st4) (st4\<lparr>opt := o6\<rparr>)
      in case hook_if E ext post_iter0_after_sync st6 of
           Inl e \<Rightarrow> Inl e
         | Inr st7 \<Rightarrow> Inr (ext, st7))))))"

text \<open>
  The body of the \<open>while\<close> loop, entered after \<open>got_kill_signal()\<close> returned false.
\<close>

definition main_iter ::
  "('o, 'w) env \<Rightarrow> bool \<Rightarrow> bool \<Rightarrow> ('o, 'w) spoke \<Rightarrow> error + ('o, 'w) spoke" where
  "main_iter E need_solution ext st =
     (case update_Ws E (world st) (localWs st) of (new, ws, w1) \<Rightarrow>
      (let st1 = st\<lparr>localWs := ws, world := w1, trace := trace st @ [UpdateWs new]\<rparr>
       in if new then
            (case hook_if E ext miditer st1 of
               Inl e \<Rightarrow> Inl e
             | Inr st2 \<Rightarrow>
            (case set_weights_and_solve E need_solution PRIOR_SOLUTION st2 of
               Inl e \<Rightarrow> Inl e
             | Inr (b, st3) \<Rightarrow>
            (case hook_if E ext enditer st3 of
               Inl e \<Rightarrow> Inl e
             | Inr st4 \<Rightarrow>
            (case hook_if E ext enditer_after_sync (send_if_not_None b st4) of
               Inl e \<Rightarrow> Inl e
             | Inr st5 \<Rightarrow> Inr (st5\<lparr>opt := (opt st5)\<lparr>PHIter := PHIter (opt st5) + 1\<rparr>\<rparr>)))))
          else do_while_waiting_for_new_Ws E need_solution PRIOR_SOLUTION st1))"

text \<open>
  The \<open>while not self.got_kill_signal()\<close> loop. It runs for as long as the hub does
  not raise the kill signal, so the model takes fuel: \<^term>\<open>None\<close> means that the
  fuel ran out before the loop ended.
\<close>

fun main_loop ::
  "('o, 'w) env \<Rightarrow> bool \<Rightarrow> bool \<Rightarrow> nat \<Rightarrow> ('o, 'w) spoke \<Rightarrow> (error + ('o, 'w) spoke) option" where
  "main_loop E need_solution ext 0 st = None"
| "main_loop E need_solution ext (Suc n) st =
     (case got_kill_signal E (world st) of (k, w1) \<Rightarrow>
      (let st1 = st\<lparr>world := w1, trace := trace st @ [KillSignal k]\<rparr>
       in if k then Some (Inr st1)
          else (case main_iter E need_solution ext st1 of
                  Inl e \<Rightarrow> Some (Inl e)
                | Inr st2 \<Rightarrow> main_loop E need_solution ext n st2)))"

definition main ::
  "('o, 'w) env \<Rightarrow> bool \<Rightarrow> nat \<Rightarrow> ('o, 'w) spoke \<Rightarrow> (error + ('o, 'w) spoke) option" where
  "main E need_solution fuel st =
     (case main_iter0 E need_solution st of
        Inl e \<Rightarrow> Some (Inl e)
      | Inr (ext, st1) \<Rightarrow> main_loop E need_solution ext fuel st1)"

subsection \<open>The optimisation object as the spec describes it\<close>

text \<open>
  Modelled from the spec: \<open>W_from_flat_list\<close>, \<open>solve_loop\<close> and \<open>Ebound\<close> of the
  optimisation object (phbase.py, spopt.py) are not among the sources. By the spec a
  WORKING step "adopts the latest published dual weights as its local weights,
  re-solves each of its local relaxed subproblems ..., accumulates the weighted
  average of each subproblem's objective across the ensemble it owns
  (probability-weighted expectation)"; the solver collaborator is
  \<open>solve(subproblem, options) -> outcome{optimum_value, feasible}\<close>, and a failed local
  computation is "no usable result this iteration".
\<close>

record outcome =
  optimum_value :: real
  feasible :: bool

record 'm lag_internals =
  W :: "real list"
  relaxed_subproblems :: "(real \<times> 'm) list"
  outcomes :: "outcome list"

definition spec_W_from_flat_list ::
  "real list \<Rightarrow> 'm lag_internals opt_state \<Rightarrow> 'm lag_internals opt_state" where
  "spec_W_from_flat_list ws ob = ob\<lparr>internals := (internals ob)\<lparr>W := ws\<rparr>\<rparr>"

definition solve_all ::
  "(solver_options \<Rightarrow> real list \<Rightarrow> 'm \<Rightarrow> outcome) \<Rightarrow> solver_options \<Rightarrow> real list
     \<Rightarrow> (real \<times> 'm) list \<Rightarrow> outcome list" where
  "solve_all solver so ws subs = map (\<lambda>(p, m). solver so ws m) subs"

definition spec_solve_loop ::
  "(solver_options \<Rightarrow> real list \<Rightarrow> 'm \<Rightarrow> outcome) \<Rightarrow> solve_args
     \<Rightarrow> 'm lag_internals opt_state \<Rightarrow> 'm lag_internals opt_state" where
  "spec_solve_loop solver args ob =
     ob\<lparr>internals := (internals ob)\<lparr>outcomes :=
          solve_all solver (sa_solver_options args) (W (internals ob))
            (relaxed_subproblems (internals ob))\<rparr>\<rparr>"

text \<open>The probability-weighted expectation of the optima, \<open>None\<close> when a solve failed.\<close>

definition expectation :: "real list \<Rightarrow> outcome list \<Rightarrow> real option" where
  "expectation ps outs =
     (if list_all feasible outs
      then Some (sum_list (map (\<lambda>(p, out). p * optimum_value out) (zip ps outs)))
      else None)"

definition spec_Ebound :: "pyval \<Rightarrow> 'm lag_internals opt_state \<Rightarrow> real option" where
  "spec_Ebound vb ob =
     expectation (map fst (relaxed_subproblems (internals ob))) (outcomes (internals ob))"

text \<open>
  Modelled from the spec: \<open>receive_nonant_bounds\<close> of the base spoke is not among the
  sources. The spoke calls it to "update the nonant bounds, if possible, for a tighter
  relaxation": it changes the subproblems' models from what the world holds, and
  neither the weights nor the probabilities.
\<close>

definition spec_receive_nonant_bounds ::
  "('w \<Rightarrow> 'm \<Rightarrow> 'm) \<Rightarrow> 'w \<Rightarrow> 'm lag_internals opt_state \<Rightarrow> 'w \<times> 'm lag_internals opt_state" where
  "spec_receive_nonant_bounds tighten w ob =
     (w, ob\<lparr>internals := (internals ob)\<lparr>relaxed_subproblems :=
              map (\<lambda>(p, m). (p, tighten w m)) (relaxed_subproblems (internals ob))\<rparr>\<rparr>)"

definition spec_env ::
  "(solver_options \<Rightarrow> real list \<Rightarrow> 'm \<Rightarrow> outcome) \<Rightarrow> ('w \<Rightarrow> 'm \<Rightarrow> 'm)
     \<Rightarrow> ('m lag_internals, 'w) env \<Rightarrow> ('m lag_internals, 'w) env" where
  "spec_env solver tighten E =
     E\<lparr>receive_nonant_bounds := spec_receive_nonant_bounds tighten,
       solve_loop := spec_solve_loop solver,
       Ebound := spec_Ebound,
       W_from_flat_list := spec_W_from_flat_list\<rparr>"

subsection \<open>A scripted hub\<close>

text \<open>
  A world that plays a fixed script: the answers of \<open>got_kill_signal\<close> in order (true
  once the script is over) and the weight vectors \<open>update_Ws\<close> finds (\<open>None\<close>: nothing
  new at that poll). With it the spoke runs on concrete inputs.
\<close>

record script =
  kills :: "bool list"
  updates :: "real list option list"

definition script_got_kill_signal :: "script \<Rightarrow> bool \<times> script" where
  "script_got_kill_signal w =
     (case kills w of [] \<Rightarrow> (True, w) | k # ks \<Rightarrow> (k, w\<lparr>kills := ks\<rparr>))"

definition script_update_Ws :: "script \<Rightarrow> real list \<Rightarrow> bool \<times> real list \<times> script" where
  "script_update_Ws w cur =
     (case updates w of
        [] \<Rightarrow> (False, cur, w)
      | None # us \<Rightarrow> (False, cur, w\<lparr>updates := us\<rparr>)
      | Some ws # us \<Rightarrow> (True, ws, w\<lparr>updates := us\<rparr>))"

text \<open>
  A linear relaxation: the subproblem \<open>(a, b, ok)\<close> has optimum \<open>a + b * sum W\<close> and is
  feasible when \<open>ok\<close>.
\<close>

definition linear_solver :: "solver_options \<Rightarrow> real list \<Rightarrow> real \<times> real \<times> bool \<Rightarrow> outcome" where
  "linear_solver so ws m =
     (case m of (a, b, ok) \<Rightarrow> \<lparr>optimum_value = a + b * sum_list ws, feasible = ok\<rparr>)"

definition script_env :: "((real \<times> real \<times> bool) lag_internals, script) env" where
  "script_env =
     \<lparr>PH_Prep = (\<lambda>attach_prox ob. ob),
      reenable_W = (\<lambda>ob. ob),
      create_solvers = (\<lambda>ob. ob),
      receive_nonant_bounds = spec_receive_nonant_bounds (\<lambda>w m. m),
      solve_loop = spec_solve_loop linear_solver,
      Ebound = spec_Ebound,
      W_from_flat_list = spec_W_from_flat_list,
      Compute_Xbar = (\<lambda>vb ob. ob),
      Update_W = (\<lambda>vb ob. ob\<lparr>internals := (internals ob)\<lparr>W := map (\<lambda>x. x + 1) (W (internals ob))\<rparr>\<rparr>),
      ext_hook = (\<lambda>h ob. ob),
      got_kill_signal = script_got_kill_signal,
      update_Ws = script_update_Ws\<rparr>"

definition script_opt ::
  "(string \<rightharpoonup> pyval) \<Rightarrow> string option \<Rightarrow> hookname list \<Rightarrow> (real \<times> real \<times> real \<times> bool) list
     \<Rightarrow> (real \<times> real \<times> bool) lag_internals opt_state" where
  "script_opt opts exts hooks subs =
     \<lparr>options = opts, extensions = exts, extobject = hooks, PHIter = 0,
      current_solver_options = PNone, iterk_solver_options = PNone,
      internals = \<lparr>W = [0, 0], relaxed_subproblems = subs, outcomes = []\<rparr>\<rparr>"

definition script_spoke ::
  "(real \<times> real \<times> bool) lag_internals opt_state \<Rightarrow> bool list \<Rightarrow> real list option list
     \<Rightarrow> ((real \<times> real \<times> bool) lag_internals, script) spoke" where
  "script_spoke ob ks us =
     \<lparr>opt = ob, verbose = PNone, trivial_bound = None, bound = None, final_bound = None,
      localWs = [], world = \<lparr>kills = ks, updates = us\<rparr>, trace = []\<rparr>"

definition base_options :: "string \<rightharpoonup> pyval" where
  "base_options = [''verbose'' \<mapsto> PBool False, ''solver_name'' \<mapsto> PStr ''cplex'']"

text \<open>The reports in a trace, in the order they were sent.\<close>

fun reports :: "event list \<Rightarrow> real option list" where
  "reports [] = []"
| "reports (SendBound v # es) = v # reports es"
| "reports (e # es) = reports es"

definition last_reported :: "event list \<Rightarrow> real option option" where
  "last_reported es = (case rev (reports es) of [] \<Rightarrow> None | v # vs \<Rightarrow> Some v)"

text \<open>The hook entry of a phase boundary, present when an extension is registered.\<close>

definition hk :: "bool \<Rightarrow> hookname \<Rightarrow> event list" where
  "hk ext h = (if ext then [Hook h] else [])"

text \<open>Concrete ensembles and extension objects for the scripted runs.\<close>

definition two_subproblems :: "(real \<times> real \<times> real \<times> bool) list" where
  "two_subproblems = [(6 / 10, 4, 3, True), (4 / 10, 14, 3, True)]"

definition infeasible_subproblems :: "(real \<times> real \<times> real \<times> bool) list" where
  "infeasible_subproblems = [(6 / 10, 4, 3, False), (4 / 10, 14, 3, True)]"

definition main_hooks :: "hookname list" where
  "main_hooks = [pre_iter0, post_iter0, post_iter0_after_sync, miditer, enditer,
                 enditer_after_sync]"

section \<open>The x-hat evaluator (utils/xhat\_eval.py)\<close>

subsection \<open>State\<close>

text \<open>
  A Pyomo variable as the evaluator touches it: its value (\<open>None\<close> when it has none),
  whether it is fixed, and whether it is binary or integer.
\<close>

record vardata =
  v_value :: "real option"
  v_fixed :: bool
  v_integral :: bool

text \<open>
  A scenario-tree node of a scenario. Variables are referred to by their position in
  the scenario's \<open>variables\<close>, since the node's list and the scenario's
  \<open>nonant_indices\<close> hold the same objects.
\<close>

record node =
  node_name :: string
  node_stage :: int
  nonant_vardata_list :: "nat list"
  surrogate_vardatas :: "nat list"

text \<open>
  A scenario (or a bundle). \<open>solver_persistent\<close> is
  \<open>sputils.is_persistent(s._solver_plugin)\<close>; \<open>solver_updates\<close> lists the
  \<open>update_var\<close> calls its persistent solver has received, each with the name of the
  scenario that owns the variable; \<open>model\<close> is the rest of the Pyomo model.
\<close>

record 'm scenario =
  mpisppy_probability :: real
  solver_persistent :: bool
  solver_updates :: "(string \<times> nat) list"
  nlens :: "string \<rightharpoonup> nat"
  mpisppy_node_list :: "node list"
  nonant_indices :: "nat list"
  all_surrogate_nonants :: "nat list"
  variables :: "vardata list"
  model :: 'm

text \<open>
  The attributes that \<open>Xhat_Eval\<close> inherits from \<open>SPOpt\<close> and reads. Without bundling
  the subproblems are the scenarios themselves (the same objects); with bundling they
  are the bundles.
\<close>

record 'm spopt =
  sp_options :: "string \<rightharpoonup> pyval"
  local_scenarios :: "(string \<times> 'm scenario) list"
  bundling :: bool
  bundles :: "(string \<times> 'm scenario) list"
  names_in_bundles :: "nat \<rightharpoonup> (nat \<rightharpoonup> string list)"
  cylinder_rank :: nat
  sp_current_solver_options :: solver_options

definition local_subproblems :: "'m spopt \<Rightarrow> (string \<times> 'm scenario) list" where
  "local_subproblems p = (if bundling p then bundles p else local_scenarios p)"

text \<open>
  The \<open>Xhat_Eval\<close> object. \<open>objs_dict\<close> is \<open>None\<close> while the attribute does not exist.
  \<open>create_solvers_calls\<close> counts the calls of \<open>_create_solvers\<close> this object has made;
  the code has no such attribute.
\<close>

record 'm xhat_eval =
  sp :: "'m spopt"
  xe_verbose :: pyval
  subproblems_solvers_created :: bool
  Ag :: pyval
  objs_dict :: "(string \<rightharpoonup> real) option"
  create_solvers_calls :: nat

text \<open>The arguments \<open>solve_one\<close> passes to \<open>super().solve_one\<close>.\<close>

record solve_one_args =
  so_solver_options :: solver_options
  so_dtiming :: bool
  so_gripe :: bool
  so_tee :: bool
  so_verbose :: pyval
  so_disable_pyomo_signal_handling :: bool
  so_update_objective :: bool
  so_warmstart :: bool
  so_need_solution :: bool

text \<open>
  The collaborators outside the file. \<open>super_solve_one\<close> solves the object it is given
  and returns the solve time; \<open>saved_objective_value k s\<close> is
  \<open>pyo.value(self.saved_objectives[k])\<close> on the object \<open>s\<close> named \<open>k\<close>;
  \<open>Allreduce_SUM\<close> is the communicator's \<open>Allreduce\<close> with \<open>op=MPI.SUM\<close>, from this
  rank's contribution to the sum over all ranks. A collaborator that raises returns
  the exception next to the state it leaves.
\<close>

record 'm xenv =
  super_create_solvers :: "bool \<Rightarrow> 'm spopt \<Rightarrow> 'm spopt"
  super_solve_one :: "solve_one_args \<Rightarrow> string \<Rightarrow> 'm scenario \<Rightarrow> (error + real) \<times> 'm scenario"
  saved_objective_value :: "string \<Rightarrow> 'm scenario \<Rightarrow> error + real"
  super_Eobjective :: "pyval \<Rightarrow> 'm spopt \<Rightarrow> real"
  fix_nonants :: "(string \<rightharpoonup> real list option) \<Rightarrow> 'm spopt \<Rightarrow> error option \<times> 'm spopt"
  infeas_prob :: "'m spopt \<Rightarrow> real"
  extract_num :: "string \<Rightarrow> nat"
  Allreduce_SUM :: "real \<Rightarrow> real"

subsection \<open>Construction and lazy solver creation\<close>

text \<open>
  \<open>__init__\<close> after \<open>super().__init__\<close> has built the inherited part: \<open>KeyError\<close> when
  the options have no \<open>verbose\<close>.
\<close>

definition Xhat_Eval_init :: "'m spopt \<Rightarrow> error + 'm xhat_eval" where
  "Xhat_Eval_init p =
     (case sp_options p ''verbose'' of
        None \<Rightarrow> Inl (KeyError ''verbose'')
      | Some vb \<Rightarrow>
          Inr \<lparr>sp = p, xe_verbose = vb, subproblems_solvers_created = False,
               Ag = (case sp_options p ''Ag'' of None \<Rightarrow> PNone | Some a \<Rightarrow> a),
               objs_dict = None, create_solvers_calls = 0\<rparr>)"

definition lazy_create_solvers :: "'m xenv \<Rightarrow> 'm xhat_eval \<Rightarrow> 'm xhat_eval" where
  "lazy_create_solvers E st =
     (if subproblems_solvers_created st then st
      else st\<lparr>sp := super_create_solvers E False (sp st),
              create_solvers_calls := Suc (create_solvers_calls st),
              subproblems_solvers_created := True\<rparr>)"

subsection \<open>Solving\<close>

text \<open>
  The dict a loop runs over, and an object of it by name. An operation that gets a
  scenario object \<open>s\<close> with its name \<open>k\<close> gets the entry \<open>k\<close> of one of the two dicts;
  the model passes the name and which dict, and writes the object back after the call
  has changed it (a name that is in neither dict has no object: \<open>KeyError\<close>).
\<close>

definition s_source :: "bool \<Rightarrow> 'm spopt \<Rightarrow> (string \<times> 'm scenario) list" where
  "s_source use_scenarios_not_subproblems p =
     (if use_scenarios_not_subproblems then local_scenarios p else local_subproblems p)"

definition put_object ::
  "string \<Rightarrow> 'm scenario \<Rightarrow> (string \<times> 'm scenario) list \<Rightarrow> (string \<times> 'm scenario) list" where
  "put_object k s d = map (\<lambda>(k', s'). if k' = k then (k', s) else (k', s')) d"

definition put_source :: "bool \<Rightarrow> string \<Rightarrow> 'm scenario \<Rightarrow> 'm spopt \<Rightarrow> 'm spopt" where
  "put_source use_scenarios_not_subproblems k s p =
     (if use_scenarios_not_subproblems \<or> \<not> bundling p
      then p\<lparr>local_scenarios := put_object k s (local_scenarios p)\<rparr>
      else p\<lparr>bundles := put_object k s (bundles p)\<rparr>)"

definition solve_one ::
  "'m xenv \<Rightarrow> solve_one_args \<Rightarrow> bool \<Rightarrow> bool \<Rightarrow> string \<Rightarrow> 'm xhat_eval
     \<Rightarrow> (error + real) \<times> 'm xhat_eval" where
  "solve_one E args compute_val_at_nonant from_scenarios k st =
     (let st1 = lazy_create_solvers E st
      in case map_of (s_source from_scenarios (sp st1)) k of
           None \<Rightarrow> (Inl (KeyError k), st1)
         | Some s \<Rightarrow>
     (case super_solve_one E (args\<lparr>so_need_solution := compute_val_at_nonant\<rparr>) k s of
           (Inl e, s1) \<Rightarrow> (Inl e, st1\<lparr>sp := put_source from_scenarios k s1 (sp st1)\<rparr>)
         | (Inr pyomo_solve_time, s1) \<Rightarrow>
     (let st2 = st1\<lparr>sp := put_source from_scenarios k s1 (sp st1)\<rparr>
      in if compute_val_at_nonant then
           (case saved_objective_value E k s1 of
              Inl e \<Rightarrow> (Inl e, st2)
            | Inr v \<Rightarrow>
           (case objs_dict st2 of
              None \<Rightarrow> (Inl (AttributeError ''objs_dict''), st2)
            | Some d \<Rightarrow> (Inr pyomo_solve_time, st2\<lparr>objs_dict := Some (d(k \<mapsto> v))\<rparr>)))
         else (Inr pyomo_solve_time, st2))))"

text \<open>
  The \<open>for k,s in s_source.items()\<close> loop of \<open>solve_loop\<close> over the names of the
  dict. The argument \<open>t\<close> is the local variable \<open>pyomo_solve_time\<close>: \<open>None\<close> while it
  is unbound, before the first step.
\<close>

fun solve_each ::
  "'m xenv \<Rightarrow> solve_one_args \<Rightarrow> bool \<Rightarrow> bool \<Rightarrow> string list \<Rightarrow> real option \<Rightarrow> 'm xhat_eval
     \<Rightarrow> (error + real option) \<times> 'm xhat_eval" where
  "solve_each E args cv from_scenarios [] t st = (Inr t, st)"
| "solve_each E args cv from_scenarios (k # ks) t st =
     (case solve_one E args cv from_scenarios k st of
        (Inl e, st1) \<Rightarrow> (Inl e, st1)
      | (Inr t1, st1) \<Rightarrow> solve_each E args cv from_scenarios ks (Some t1) st1)"

text \<open>
  \<open>solve_loop\<close>. Its parameter \<open>need_solution\<close> is not used by the body. With \<open>dtiming\<close>
  the solve times are gathered and printed, which needs \<open>pyomo_solve_time\<close> bound.
\<close>

definition xe_solve_loop ::
  "'m xenv \<Rightarrow> solver_options \<Rightarrow> bool \<Rightarrow> bool \<Rightarrow> bool \<Rightarrow> bool \<Rightarrow> bool \<Rightarrow> pyval \<Rightarrow> bool \<Rightarrow> bool
     \<Rightarrow> bool \<Rightarrow> 'm xhat_eval \<Rightarrow> error option \<times> 'm xhat_eval" where
  "xe_solve_loop E solver_options use_scenarios_not_subproblems dtiming gripe
       disable_pyomo_signal_handling tee vb compute_val_at_nonant warmstart need_solution st =
     (let st1 = lazy_create_solvers E st;
          st2 = (if compute_val_at_nonant then st1\<lparr>objs_dict := Some Map.empty\<rparr> else st1);
          args = \<lparr>so_solver_options = solver_options, so_dtiming = dtiming, so_gripe = gripe,
                  so_tee = tee, so_verbose = vb,
                  so_disable_pyomo_signal_handling = disable_pyomo_signal_handling,
                  so_update_objective = True, so_warmstart = warmstart,
                  so_need_solution = compute_val_at_nonant\<rparr>
      in case solve_each E args compute_val_at_nonant use_scenarios_not_subproblems
                (map fst (s_source use_scenarios_not_subproblems (sp st2))) None st2 of
           (Inl e, st3) \<Rightarrow> (Some e, st3)
         | (Inr t, st3) \<Rightarrow>
             (if dtiming \<and> t = None then (Some (UnboundLocalError ''pyomo_solve_time''), st3)
              else (None, st3)))"

subsection \<open>Expected objective\<close>

text \<open>
  The loop of \<open>Eobjective\<close> for a given \<open>fct\<close>: the terms
  \<open>s._mpisppy_probability * fct(self.objs_dict[k])\<close> of the local scenarios,
  \<open>RuntimeError\<close> at the first scenario without a value.
\<close>

fun local_Eobjs ::
  "(real \<Rightarrow> real) \<Rightarrow> (string \<rightharpoonup> real) \<Rightarrow> (string \<times> 'm scenario) list \<Rightarrow> error + real list" where
  "local_Eobjs f d [] = Inr []"
| "local_Eobjs f d ((k, s) # rest) =
     (case d k of
        None \<Rightarrow> Inl (RuntimeError ''No value has been calculated for the scenario'')
      | Some v \<Rightarrow>
          (case local_Eobjs f d rest of
             Inl e \<Rightarrow> Inl e
           | Inr xs \<Rightarrow> Inr (mpisppy_probability s * f v # xs)))"

text \<open>
  \<open>Eobjective\<close>, for a real-valued \<open>fct\<close>: the local terms are summed
  (\<open>np.sum(..., axis=0)\<close>), reduced over the ranks, and the one entry of the result is
  returned.
\<close>

definition Eobjective ::
  "'m xenv \<Rightarrow> pyval \<Rightarrow> (real \<Rightarrow> real) option \<Rightarrow> 'm xhat_eval \<Rightarrow> (error + real) \<times> 'm xhat_eval" where
  "Eobjective E vb fct st =
     (let st1 = lazy_create_solvers E st
      in case fct of
           None \<Rightarrow> (Inr (super_Eobjective E vb (sp st1)), st1)
         | Some f \<Rightarrow>
             (case objs_dict st1 of
                None \<Rightarrow> (Inl (RuntimeError ''Values of the objective functions for each scenario at xhat have to be computed before running Eobjective''), st1)
              | Some d \<Rightarrow>
                  (case local_Eobjs f d (local_scenarios (sp st1)) of
                     Inl e \<Rightarrow> (Inl e, st1)
                   | Inr xs \<Rightarrow> (Inr (Allreduce_SUM E (sum_list xs)), st1))))"

text \<open>\<open>self.options["solver_options"] if "solver_options" in self.options else None\<close>\<close>

definition options_solver_options :: "'m spopt \<Rightarrow> solver_options" where
  "options_solver_options p =
     (case sp_options p ''solver_options'' of None \<Rightarrow> PNone | Some so \<Rightarrow> so)"

definition evaluate_one ::
  "'m xenv \<Rightarrow> (string \<rightharpoonup> real list option) \<Rightarrow> string \<Rightarrow> 'm xhat_eval
     \<Rightarrow> (error + real) \<times> 'm xhat_eval" where
  "evaluate_one E nonant_cache scenario_name st =
     (let st1 = lazy_create_solvers E st
      in case fix_nonants E nonant_cache (sp st1) of
           (Some e, p1) \<Rightarrow> (Inl e, st1\<lparr>sp := p1\<rparr>)
         | (None, p1) \<Rightarrow>
     (let st2 = st1\<lparr>sp := p1\<rparr>;
          st3 = (if objs_dict st2 = None then st2\<lparr>objs_dict := Some Map.empty\<rparr> else st2);
          args = \<lparr>so_solver_options = options_solver_options (sp st3), so_dtiming = False,
                  so_gripe = True, so_tee = False, so_verbose = xe_verbose st3,
                  so_disable_pyomo_signal_handling = False, so_update_objective = True,
                  so_warmstart = False, so_need_solution = True\<rparr>
      in case solve_one E args True True scenario_name st3 of
           (Inl e, st4) \<Rightarrow> (Inl e, st4)
         | (Inr t, st4) \<Rightarrow>
             (case objs_dict st4 of
                None \<Rightarrow> (Inl (AttributeError ''objs_dict''), st4)
              | Some d \<Rightarrow>
                  (case d scenario_name of
                     None \<Rightarrow> (Inl (KeyError scenario_name), st4)
                   | Some obj \<Rightarrow> (Inr obj, st4)))))"

definition evaluate ::
  "'m xenv \<Rightarrow> (string \<rightharpoonup> real list option) \<Rightarrow> (real \<Rightarrow> real) option \<Rightarrow> 'm xhat_eval
     \<Rightarrow> (error + real) \<times> 'm xhat_eval" where
  "evaluate E nonant_cache fct st =
     (let st1 = lazy_create_solvers E st
      in case fix_nonants E nonant_cache (sp st1) of
           (Some e, p1) \<Rightarrow> (Inl e, st1\<lparr>sp := p1\<rparr>)
         | (None, p1) \<Rightarrow>
     (let st2 = st1\<lparr>sp := p1\<rparr>
      in case xe_solve_loop E (options_solver_options (sp st2)) True False True False False
                (xe_verbose st2) True False False st2 of
           (Some e, st3) \<Rightarrow> (Inl e, st3)
         | (None, st3) \<Rightarrow> Eobjective E (xe_verbose st3) fct st3))"

subsection \<open>Fixing the non-anticipative variables\<close>

text \<open>Python's \<open>round\<close> of a float: to the nearest integer, a tie to the even one.\<close>

definition py_round :: "real \<Rightarrow> int" where
  "py_round x =
     (let f = \<lfloor>x\<rfloor>; d = x - of_int f
      in if d < 1 / 2 then f else if 1 / 2 < d then f + 1 else if even f then f else f + 1)"

text \<open>An option value as the number it is in an addition to a float.\<close>

fun as_number :: "pyval \<Rightarrow> real option" where
  "as_number (PBool b) = Some (if b then 1 else 0)"
| "as_number (PInt i) = Some (of_int i)"
| "as_number (PFloat r) = Some r"
| "as_number v = None"

text \<open>\<open>self.options.get("rounding_bias", 0.0)\<close>\<close>

definition rounding_bias :: "'m spopt \<Rightarrow> pyval" where
  "rounding_bias p = (case sp_options p ''rounding_bias'' of None \<Rightarrow> PFloat 0 | Some b \<Rightarrow> b)"

text \<open>
  The loop \<open>for i in range(nlens[ndn])\<close> of \<open>fix_nonants_upto_stage\<close> on the scenario
  \<open>k\<close>: \<open>cv\<close> is \<open>cache[ndn]\<close>, \<open>pers\<close> says that the scenario's solver is persistent.
\<close>

fun fix_vars_upto ::
  "pyval \<Rightarrow> real list \<Rightarrow> node \<Rightarrow> bool \<Rightarrow> string \<Rightarrow> nat list \<Rightarrow> 'm scenario
     \<Rightarrow> error option \<times> 'm scenario" where
  "fix_vars_upto bias cv nd pers k [] s = (None, s)"
| "fix_vars_upto bias cv nd pers k (i # rest) s =
     (if i < length (nonant_vardata_list nd) then
        (let this_vardata = nonant_vardata_list nd ! i
         in if this_vardata \<in> set (surrogate_vardatas nd)
            then fix_vars_upto bias cv nd pers k rest s
            else
              (let vd = variables s ! this_vardata
               in if v_integral vd \<and> as_number bias = None
                  then (Some (TypeError ''rounding_bias''), s)
                  else
                    (let v = (if v_integral vd
                              then of_int (py_round (cv ! i + the (as_number bias)))
                              else cv ! i);
                         vs = (variables s)[this_vardata := vd\<lparr>v_value := Some v, v_fixed := True\<rparr>];
                         ups = (if pers then solver_updates s @ [(k, this_vardata)]
                                else solver_updates s)
                     in fix_vars_upto bias cv nd pers k rest
                          (s\<lparr>variables := vs, solver_updates := ups\<rparr>))))
      else (Some IndexError, s))"

text \<open>The loop \<open>for node in s._mpisppy_node_list\<close>.\<close>

fun fix_nodes_upto ::
  "int \<Rightarrow> (string \<rightharpoonup> real list option) \<Rightarrow> pyval \<Rightarrow> string \<Rightarrow> node list \<Rightarrow> 'm scenario
     \<Rightarrow> error option \<times> 'm scenario" where
  "fix_nodes_upto t cache bias k [] s = (None, s)"
| "fix_nodes_upto t cache bias k (nd # nds) s =
     (if node_stage nd \<le> t then
        (case cache (node_name nd) of
           None \<Rightarrow> (Some (RuntimeError ''Could not find node in cache''), s)
         | Some None \<Rightarrow> (Some (RuntimeError ''Empty cache''), s)
         | Some (Some cv) \<Rightarrow>
             (case nlens s (node_name nd) of
                None \<Rightarrow> (Some (KeyError (node_name nd)), s)
              | Some n \<Rightarrow>
                  if length cv \<noteq> n
                  then (Some (RuntimeError ''Needed a different number of nonant Vars''), s)
                  else
                    (case fix_vars_upto bias cv nd (solver_persistent s) k [0..<n] s of
                       (Some e, s1) \<Rightarrow> (Some e, s1)
                     | (None, s1) \<Rightarrow> fix_nodes_upto t cache bias k nds s1)))
      else fix_nodes_upto t cache bias k nds s)"

text \<open>The loop \<open>for k,s in self.local_scenarios.items()\<close>.\<close>

fun fix_scenarios_upto ::
  "int \<Rightarrow> (string \<rightharpoonup> real list option) \<Rightarrow> pyval \<Rightarrow> (string \<times> 'm scenario) list
     \<Rightarrow> error option \<times> (string \<times> 'm scenario) list" where
  "fix_scenarios_upto t cache bias [] = (None, [])"
| "fix_scenarios_upto t cache bias ((k, s) # rest) =
     (case fix_nodes_upto t cache bias k (mpisppy_node_list s) s of
        (Some e, s1) \<Rightarrow> (Some e, (k, s1) # rest)
      | (None, s1) \<Rightarrow>
          (case fix_scenarios_upto t cache bias rest of
             (eo, rest1) \<Rightarrow> (eo, (k, s1) # rest1)))"

definition fix_nonants_upto_stage ::
  "'m xenv \<Rightarrow> int \<Rightarrow> (string \<rightharpoonup> real list option) \<Rightarrow> 'm xhat_eval
     \<Rightarrow> error option \<times> 'm xhat_eval" where
  "fix_nonants_upto_stage E t cache st =
     (let st1 = lazy_create_solvers E st
      in case fix_scenarios_upto t cache (rounding_bias (sp st1)) (local_scenarios (sp st1)) of
           (eo, scens) \<Rightarrow> (eo, st1\<lparr>sp := (sp st1)\<lparr>local_scenarios := scens\<rparr>\<rparr>))"

text \<open>
  \<open>_fix_nonants_at_value\<close>, first loop, the variables of one scenario: \<open>upd\<close> says
  that there is no bundling and the scenario's solver is persistent.
\<close>

fun fix_vars_at_value ::
  "pyval \<Rightarrow> bool \<Rightarrow> string \<Rightarrow> nat list \<Rightarrow> 'm scenario \<Rightarrow> error option \<times> 'm scenario" where
  "fix_vars_at_value bias upd k [] s = (None, s)"
| "fix_vars_at_value bias upd k (var # rest) s =
     (if var \<in> set (all_surrogate_nonants s) then fix_vars_at_value bias upd k rest s
      else
        (let vd = variables s ! var
         in if v_integral vd \<and> (v_value vd = None \<or> as_number bias = None)
            then (Some (TypeError ''unsupported operand''), s)
            else
              (let vd1 = (if v_integral vd
                          then vd\<lparr>v_value :=
                                 Some (of_int (py_round (the (v_value vd) + the (as_number bias))))\<rparr>
                          else vd);
                   vs = (variables s)[var := vd1\<lparr>v_fixed := True\<rparr>];
                   ups = (if upd then solver_updates s @ [(k, var)] else solver_updates s)
               in fix_vars_at_value bias upd k rest
                    (s\<lparr>variables := vs, solver_updates := ups\<rparr>))))"

fun fix_scenarios_at_value ::
  "pyval \<Rightarrow> bool \<Rightarrow> (string \<times> 'm scenario) list
     \<Rightarrow> error option \<times> (string \<times> 'm scenario) list" where
  "fix_scenarios_at_value bias bun [] = (None, [])"
| "fix_scenarios_at_value bias bun ((k, s) # rest) =
     (case fix_vars_at_value bias (\<not> bun \<and> solver_persistent s) k (nonant_indices s) s of
        (Some e, s1) \<Rightarrow> (Some e, (k, s1) # rest)
      | (None, s1) \<Rightarrow>
          (case fix_scenarios_at_value bias bun rest of
             (eo, rest1) \<Rightarrow> (eo, (k, s1) # rest1)))"

text \<open>
  Second part, with bundling: the \<open>update_var\<close> calls a bundle's persistent solver
  gets for the scenarios of the bundle. The inner loop stops
  (\<open>break\<close>) at the first scenario that is not in the bundle.
\<close>

fun bundle_updates ::
  "(nat \<rightharpoonup> (nat \<rightharpoonup> string list)) \<Rightarrow> nat \<Rightarrow> nat \<Rightarrow> (string \<times> 'm scenario) list
     \<Rightarrow> error + (string \<times> nat) list" where
  "bundle_updates nib rank_local bunnum [] = Inr []"
| "bundle_updates nib rank_local bunnum ((sname, scen) # rest) =
     (case nib rank_local of
        None \<Rightarrow> Inl (KeyError ''names_in_bundles'')
      | Some byrank \<Rightarrow>
          (case byrank bunnum of
             None \<Rightarrow> Inl (KeyError ''names_in_bundles'')
           | Some names \<Rightarrow>
               if sname \<notin> set names then Inr []
               else
                 (case bundle_updates nib rank_local bunnum rest of
                    Inl e \<Rightarrow> Inl e
                  | Inr ups \<Rightarrow>
                      Inr (map (\<lambda>var. (sname, var))
                             (filter (\<lambda>var. var \<notin> set (all_surrogate_nonants scen))
                                (nonant_indices scen)) @ ups))))"

text \<open>
  The loop over the bundles stops (\<open>break\<close>) at the first bundle whose solver is not
  persistent.
\<close>

fun update_bundles ::
  "(string \<Rightarrow> nat) \<Rightarrow> (nat \<rightharpoonup> (nat \<rightharpoonup> string list)) \<Rightarrow> nat \<Rightarrow> (string \<times> 'm scenario) list
     \<Rightarrow> (string \<times> 'm scenario) list \<Rightarrow> error option \<times> (string \<times> 'm scenario) list" where
  "update_bundles xnum nib rank_local scens [] = (None, [])"
| "update_bundles xnum nib rank_local scens ((k, s) # rest) =
     (if solver_persistent s then
        (case bundle_updates nib rank_local (xnum k) scens of
           Inl e \<Rightarrow> (Some e, (k, s) # rest)
         | Inr ups \<Rightarrow>
             (case update_bundles xnum nib rank_local scens rest of
                (eo, rest1) \<Rightarrow> (eo, (k, s\<lparr>solver_updates := solver_updates s @ ups\<rparr>) # rest1)))
      else (None, (k, s) # rest))"

definition fix_nonants_at_value :: "'m xenv \<Rightarrow> 'm spopt \<Rightarrow> error option \<times> 'm spopt" where
  "fix_nonants_at_value E p =
     (case fix_scenarios_at_value (rounding_bias p) (bundling p) (local_scenarios p) of
        (Some e, scens) \<Rightarrow> (Some e, p\<lparr>local_scenarios := scens\<rparr>)
      | (None, scens) \<Rightarrow>
          (let p1 = p\<lparr>local_scenarios := scens\<rparr>
           in if bundling p1 then
                (case update_bundles (extract_num E) (names_in_bundles p1) (cylinder_rank p1)
                        (local_scenarios p1) (local_subproblems p1) of
                   (eo, buns) \<Rightarrow> (eo, p1\<lparr>bundles := buns\<rparr>))
              else (None, p1)))"

subsection \<open>The incumbent\<close>

definition calculate_incumbent ::
  "'m xenv \<Rightarrow> bool \<Rightarrow> pyval \<Rightarrow> 'm xhat_eval \<Rightarrow> (error + real option) \<times> 'm xhat_eval" where
  "calculate_incumbent E fix vb st =
     (let st1 = lazy_create_solvers E st
      in case (if fix then fix_nonants_at_value E (sp st1) else (None, sp st1)) of
           (Some e, p1) \<Rightarrow> (Inl e, st1\<lparr>sp := p1\<rparr>)
         | (None, p1) \<Rightarrow>
     (let st2 = st1\<lparr>sp := p1\<rparr>
      in case xe_solve_loop E (sp_current_solver_options (sp st2)) False False False False False
                vb False False False st2 of
           (Some e, st3) \<Rightarrow> (Inl e, st3)
         | (None, st3) \<Rightarrow>
             (let infeasP = infeas_prob E (sp st3)
              in if infeasP \<noteq> 0 then (Inr None, st3)
                 else (case Eobjective E vb None st3 of
                         (Inl e, st4) \<Rightarrow> (Inl e, st4)
                       | (Inr v, st4) \<Rightarrow> (Inr (Some v), st4)))))"

subsection \<open>Sequences of public operations\<close>

datatype xop =
  Op_solve_one solve_one_args bool bool string
| Op_solve_loop solver_options bool bool bool bool bool pyval bool bool bool
| Op_Eobjective pyval "(real \<Rightarrow> real) option"
| Op_evaluate_one "string \<rightharpoonup> real list option" string
| Op_evaluate "string \<rightharpoonup> real list option" "(real \<Rightarrow> real) option"
| Op_fix_nonants_upto_stage int "string \<rightharpoonup> real list option"
| Op_fix_nonants_at_value
| Op_calculate_incumbent bool pyval

text \<open>
  The state an operation leaves, whether it returns or raises: the object lives on
  after an exception, with what had been done by then.
\<close>

fun apply_op :: "'m xenv \<Rightarrow> xop \<Rightarrow> 'm xhat_eval \<Rightarrow> 'm xhat_eval" where
  "apply_op E (Op_solve_one args cv src k) st = snd (solve_one E args cv src k st)"
| "apply_op E (Op_solve_loop so us dt gr di tee vb cv ws ns) st =
     snd (xe_solve_loop E so us dt gr di tee vb cv ws ns st)"
| "apply_op E (Op_Eobjective vb fct) st = snd (Eobjective E vb fct st)"
| "apply_op E (Op_evaluate_one cache k) st = snd (evaluate_one E cache k st)"
| "apply_op E (Op_evaluate cache fct) st = snd (evaluate E cache fct st)"
| "apply_op E (Op_fix_nonants_upto_stage t cache) st = snd (fix_nonants_upto_stage E t cache st)"
| "apply_op E Op_fix_nonants_at_value st =
     st\<lparr>sp := snd (fix_nonants_at_value E (sp st))\<rparr>"
| "apply_op E (Op_calculate_incumbent fix vb) st = snd (calculate_incumbent E fix vb st)"

fun run_ops :: "'m xenv \<Rightarrow> xop list \<Rightarrow> 'm xhat_eval \<Rightarrow> 'm xhat_eval" where
  "run_ops E [] st = st"
| "run_ops E (x # xs) st = run_ops E xs (apply_op E x st)"

text \<open>
  The state of lazy creation is as it should be: no call before the flag is set,
  one call once it is.
\<close>

definition solvers_once :: "'m xhat_eval \<Rightarrow> bool" where
  "solvers_once st =
     (if subproblems_solvers_created st then create_solvers_calls st = 1
      else create_solvers_calls st = 0)"

subsection \<open>The inherited methods as the spec describes them\<close>

text \<open>
  The objective value of the object \<open>s\<close> named \<open>k\<close> when it can be evaluated.
\<close>

definition objective_of :: "'m xenv \<Rightarrow> string \<Rightarrow> 'm scenario \<Rightarrow> real" where
  "objective_of E k s = (case saved_objective_value E k s of Inl e \<Rightarrow> 0 | Inr v \<Rightarrow> v)"

text \<open>
  Modelled from the spec: \<open>SPOpt.Eobjective\<close> (spopt.py), which \<open>Eobjective\<close> calls when
  \<open>fct\<close> is \<open>None\<close>, is not among the sources. By the spec the evaluator "computes the
  expected objective across the ensemble": the probability-weighted sum of the current
  objective values of the local scenarios, reduced over the ranks.
\<close>

definition spec_super_Eobjective :: "'m xenv \<Rightarrow> pyval \<Rightarrow> 'm spopt \<Rightarrow> real" where
  "spec_super_Eobjective E vb p =
     Allreduce_SUM E
       (\<Sum>(k, s)\<leftarrow>local_scenarios p. mpisppy_probability s * objective_of E k s)"

text \<open>
  Modelled from the spec: \<open>SPOpt._fix_nonants\<close> is not among the sources. By the spec
  the candidate is "a full assignment to every non-anticipative coordinate" and it is
  fixed: every non-anticipative variable of every node of every local scenario gets
  the value the cache holds for it and is fixed; a cache that is not a full assignment
  for a node is an error.
\<close>

definition spec_fix_node :: "real list \<Rightarrow> nat list \<Rightarrow> vardata list \<Rightarrow> vardata list" where
  "spec_fix_node cv ids vs =
     fold (\<lambda>(var, x) vs'. vs'[var := (vs' ! var)\<lparr>v_value := Some x, v_fixed := True\<rparr>])
       (zip ids cv) vs"

fun spec_fix_nodes ::
  "(string \<rightharpoonup> real list option) \<Rightarrow> node list \<Rightarrow> 'm scenario \<Rightarrow> error option \<times> 'm scenario" where
  "spec_fix_nodes cache [] s = (None, s)"
| "spec_fix_nodes cache (nd # nds) s =
     (case cache (node_name nd) of
        Some (Some cv) \<Rightarrow>
          if length cv = length (nonant_vardata_list nd)
          then spec_fix_nodes cache nds
                 (s\<lparr>variables := spec_fix_node cv (nonant_vardata_list nd) (variables s)\<rparr>)
          else (Some (RuntimeError ''not a full assignment''), s)
      | _ \<Rightarrow> (Some (RuntimeError ''not a full assignment''), s))"

fun spec_fix_scenarios ::
  "(string \<rightharpoonup> real list option) \<Rightarrow> (string \<times> 'm scenario) list
     \<Rightarrow> error option \<times> (string \<times> 'm scenario) list" where
  "spec_fix_scenarios cache [] = (None, [])"
| "spec_fix_scenarios cache ((k, s) # rest) =
     (case spec_fix_nodes cache (mpisppy_node_list s) s of
        (Some e, s1) \<Rightarrow> (Some e, (k, s1) # rest)
      | (None, s1) \<Rightarrow>
          (case spec_fix_scenarios cache rest of (eo, rest1) \<Rightarrow> (eo, (k, s1) # rest1)))"

definition spec_fix_nonants ::
  "(string \<rightharpoonup> real list option) \<Rightarrow> 'm spopt \<Rightarrow> error option \<times> 'm spopt" where
  "spec_fix_nonants cache p =
     (case spec_fix_scenarios cache (local_scenarios p) of
        (eo, scens) \<Rightarrow> (eo, p\<lparr>local_scenarios := scens\<rparr>))"

definition spec_xenv :: "'m xenv \<Rightarrow> 'm xenv" where
  "spec_xenv E = E\<lparr>super_Eobjective := spec_super_Eobjective E, fix_nonants := spec_fix_nonants\<rparr>"

subsection \<open>A small ensemble\<close>

text \<open>
  Concrete collaborators for running the evaluator: a scenario's model is its unit
  cost and whether it is feasible, its objective is the unit cost times the sum of its
  variables' values, the solver leaves the object as it is (or fails on the scenario
  named \<open>broken\<close>), the infeasibility probability is the probability of the infeasible
  subproblems, and the communicator has this one rank.
\<close>

definition unit_cost_objective :: "string \<Rightarrow> (real \<times> bool) scenario \<Rightarrow> error + real" where
  "unit_cost_objective k s =
     (if list_all (\<lambda>vd. v_value vd \<noteq> None) (variables s)
      then Inr (fst (model s) * sum_list (map (\<lambda>vd. the (v_value vd)) (variables s)))
      else Inl (RuntimeError ''No value for uninitialized variable''))"

definition small_xenv :: "(real \<times> bool) xenv" where
  "small_xenv =
     \<lparr>super_create_solvers = (\<lambda>presolve p. p),
      super_solve_one = (\<lambda>args k s. if k = ''broken'' then (Inl (SolverError k), s)
                                     else (Inr 0, s)),
      saved_objective_value = unit_cost_objective,
      super_Eobjective = (\<lambda>vb p. \<Sum>(k, s)\<leftarrow>local_scenarios p.
            mpisppy_probability s * (case unit_cost_objective k s of Inl e \<Rightarrow> 0 | Inr v \<Rightarrow> v)),
      fix_nonants = spec_fix_nonants,
      infeas_prob = (\<lambda>p. \<Sum>(k, s)\<leftarrow>local_subproblems p.
            if snd (model s) then 0 else mpisppy_probability s),
      extract_num = (\<lambda>k. 0),
      Allreduce_SUM = (\<lambda>x. x)\<rparr>"

definition small_scenario :: "real \<Rightarrow> real \<Rightarrow> bool \<Rightarrow> real option \<Rightarrow> (real \<times> bool) scenario" where
  "small_scenario p c ok x =
     \<lparr>mpisppy_probability = p, solver_persistent = False, solver_updates = [],
      nlens = [''ROOT'' \<mapsto> 1],
      mpisppy_node_list = [\<lparr>node_name = ''ROOT'', node_stage = 1, nonant_vardata_list = [0],
                            surrogate_vardatas = []\<rparr>],
      nonant_indices = [0], all_surrogate_nonants = [],
      variables = [\<lparr>v_value = x, v_fixed = False, v_integral = False\<rparr>],
      model = (c, ok)\<rparr>"

definition small_spopt :: "(string \<times> (real \<times> bool) scenario) list \<Rightarrow> (real \<times> bool) spopt" where
  "small_spopt scens =
     \<lparr>sp_options = [''verbose'' \<mapsto> PBool False], local_scenarios = scens, bundling = False,
      bundles = [], names_in_bundles = Map.empty, cylinder_rank = 0,
      sp_current_solver_options = PNone\<rparr>"

definition small_xhat :: "(string \<times> (real \<times> bool) scenario) list \<Rightarrow> (real \<times> bool) xhat_eval" where
  "small_xhat scens =
     \<lparr>sp = small_spopt scens, xe_verbose = PBool False, subproblems_solvers_created = False,
      Ag = PNone, objs_dict = None, create_solvers_calls = 0\<rparr>"

definition small_scenarios :: "real option \<Rightarrow> (string \<times> (real \<times> bool) scenario) list" where
  "small_scenarios x =
     [(''scen0'', small_scenario (6 / 10) 2 True x), (''scen1'', small_scenario (4 / 10) 5 True x)]"

definition infeasible_scenarios :: "real option \<Rightarrow> (string \<times> (real \<times> bool) scenario) list" where
  "infeasible_scenarios x =
     [(''scen0'', small_scenario (6 / 10) 2 True x), (''scen1'', small_scenario (4 / 10) 5 False x)]"

definition broken_scenarios :: "real option \<Rightarrow> (string \<times> (real \<times> bool) scenario) list" where
  "broken_scenarios x =
     [(''scen0'', small_scenario (6 / 10) 2 True x), (''broken'', small_scenario (4 / 10) 5 True x)]"

section \<open>Properties of the spoke\<close>

subsection \<open>One step at a time\<close>

lemma send_bound_simps [simp]:
  "trace (send_bound v st) = trace st @ [SendBound v]"
  "bound (send_bound v st) = v"
  "opt (send_bound v st) = opt st"
  "world (send_bound v st) = world st"
  "localWs (send_bound v st) = localWs st"
  "trivial_bound (send_bound v st) = trivial_bound st"
  "verbose (send_bound v st) = verbose st"
  by (simp_all add: send_bound_def)

lemma hook_if_Inr:
  "hook_if E ext h st = Inr st' \<Longrightarrow>
     trace st' = trace st @ hk ext h \<and> bound st' = bound st \<and> localWs st' = localWs st \<and>
     world st' = world st \<and> trivial_bound st' = trivial_bound st \<and> verbose st' = verbose st \<and>
     opt st' = (if ext then ext_hook E h (opt st) else opt st) \<and>
     final_bound st' = final_bound st"
  by (auto simp: hook_if_def call_hook_def hk_def split: if_splits)

lemma lagrangian_prep_simps [simp]:
  "trace (lagrangian_prep E st) =
     trace st @ [Called_PH_Prep, Called_reenable_W, Called_create_solvers]"
  "bound (lagrangian_prep E st) = bound st"
  "localWs (lagrangian_prep E st) = localWs st"
  "world (lagrangian_prep E st) = world st"
  "trivial_bound (lagrangian_prep E st) = trivial_bound st"
  "verbose (lagrangian_prep E st) = verbose st"
  "opt (lagrangian_prep E st) = create_solvers E (reenable_W E (PH_Prep E False (opt st)))"
  by (simp_all add: lagrangian_prep_def Let_def)

lemma lagrangian_Inr:
  "lagrangian E ns ws st = Inr (b, st') \<Longrightarrow>
     trace st' = trace st @ [Called_receive_nonant_bounds, Called_solve_loop ws ns] \<and>
     bound st' = bound st \<and> localWs st' = localWs st \<and>
     trivial_bound st' = trivial_bound st \<and> verbose st' = verbose st \<and>
     world st' = fst (receive_nonant_bounds E (world st) (opt st)) \<and>
     final_bound st' = final_bound st"
  by (auto simp: lagrangian_def Let_def split: prod.splits option.splits if_splits)

lemma send_if_not_None_simps [simp]:
  "trace (send_if_not_None b st) =
     trace st @ (case b of None \<Rightarrow> [] | Some v \<Rightarrow> [SendBound (Some v)])"
  "opt (send_if_not_None b st) = opt st"
  "world (send_if_not_None b st) = world st"
  "localWs (send_if_not_None b st) = localWs st"
  "trivial_bound (send_if_not_None b st) = trivial_bound st"
  "verbose (send_if_not_None b st) = verbose st"
  "bound (send_if_not_None b st) = (case b of None \<Rightarrow> bound st | Some v \<Rightarrow> Some v)"
  by (simp_all add: send_if_not_None_def split: option.splits)


lemma case_sum_eq_Inr:
  "((case m of Inl e \<Rightarrow> Inl e | Inr x \<Rightarrow> f x) = Inr y) = (\<exists>x. m = Inr x \<and> f x = Inr y)"
  by (cases m) auto

lemma main_iter0_unfold:
  assumes "main_iter0 E ns st = Inr (ext, st')"
  shows "\<exists>vb st2 b st3 st4.
    options (opt st) ''verbose'' = Some vb
    \<and> hook_if E ext pre_iter0 (lagrangian_prep E (st\<lparr>verbose := vb\<rparr>)) = Inr st2
    \<and> lagrangian E ns USER_SOLUTION (st2\<lparr>opt := (opt st2)\<lparr>PHIter := 0\<rparr>\<rparr>) = Inr (b, st3)
    \<and> hook_if E ext post_iter0 (st3\<lparr>trivial_bound := b\<rparr>) = Inr st4
    \<and> hook_if E ext post_iter0_after_sync
        (send_bound (trivial_bound st4)
          (st4\<lparr>opt := (opt st4)\<lparr>PHIter := PHIter (opt st4) + 1,
                current_solver_options := iterk_solver_options (opt st4)\<rparr>\<rparr>)) = Inr st'
    \<and> ext = (extensions (opt st) \<noteq> None)"
  using assms
  apply (simp add: main_iter0_def case_sum_eq_Inr split: option.splits)
  apply (simp add: Let_def case_sum_eq_Inr)
  apply blast
  done

lemma main_iter0_trace:
  assumes "main_iter0 E ns st = Inr (ext, st')"
  shows "ext = (extensions (opt st) \<noteq> None) \<and>
     trace st' = trace st @ [Called_PH_Prep, Called_reenable_W, Called_create_solvers]
        @ hk ext pre_iter0
        @ [Called_receive_nonant_bounds, Called_solve_loop USER_SOLUTION ns]
        @ hk ext post_iter0 @ [SendBound (trivial_bound st')] @ hk ext post_iter0_after_sync \<and>
     bound st' = trivial_bound st' \<and> localWs st' = localWs st"
proof -
  from main_iter0_unfold[OF assms] obtain vb st2 b st3 st4  where
    vb: "options (opt st) ''verbose'' = Some vb"
    and h1: "hook_if E ext pre_iter0 (lagrangian_prep E (st\<lparr>verbose := vb\<rparr>)) = Inr st2"
    and l: "lagrangian E ns USER_SOLUTION (st2\<lparr>opt := (opt st2)\<lparr>PHIter := 0\<rparr>\<rparr>) = Inr (b, st3)"
    and h2: "hook_if E ext post_iter0 (st3\<lparr>trivial_bound := b\<rparr>) = Inr st4"
    and h3: "hook_if E ext post_iter0_after_sync
        (send_bound (trivial_bound st4)
          (st4\<lparr>opt := (opt st4)\<lparr>PHIter := PHIter (opt st4) + 1,
                current_solver_options := iterk_solver_options (opt st4)\<rparr>\<rparr>)) = Inr st'"
    and e: "ext = (extensions (opt st) \<noteq> None)" 
    by blast
  show ?thesis
    using hook_if_Inr[OF h1] lagrangian_Inr[OF l] hook_if_Inr[OF h2] hook_if_Inr[OF h3] e
    by simp
qed


lemma reports_append [simp]: "reports (xs @ ys) = reports xs @ reports ys"
  by (induction xs rule: reports.induct) simp_all

lemma reports_hk [simp]: "reports (hk ext h) = []"
  by (simp add: hk_def)

lemma lagrangian_result:
  assumes "lagrangian E ns ws st = Inr (b, st')"
  shows "\<exists>vb sn.
     options (snd (receive_nonant_bounds E (world st) (opt st))) ''verbose'' = Some vb \<and>
     options (snd (receive_nonant_bounds E (world st) (opt st))) ''solver_name'' = Some sn \<and>
     supports_in sn \<and>
     opt st' = solve_loop E
        \<lparr>sa_solver_options =
            current_solver_options (snd (receive_nonant_bounds E (world st) (opt st))),
         sa_dtiming = False, sa_gripe = True,
         sa_tee = (case options (snd (receive_nonant_bounds E (world st) (opt st)))
                          ''tee-rank0-solves'' of None \<Rightarrow> PBool False | Some t \<Rightarrow> t),
         sa_verbose = vb, sa_need_solution = ns, sa_warmstart = ws\<rparr>
        (snd (receive_nonant_bounds E (world st) (opt st))) \<and>
     b = Ebound E vb (opt st')"
  using assms
  by (auto simp: lagrangian_def Let_def split: prod.splits option.splits if_splits)

lemma set_weights_and_solve_Inr:
  "set_weights_and_solve E ns ws st = Inr (b, st') \<Longrightarrow>
     trace st' = trace st @ [Called_W_from_flat_list (localWs st),
        Called_receive_nonant_bounds, Called_solve_loop ws ns] \<and>
     bound st' = bound st \<and> localWs st' = localWs st \<and>
     trivial_bound st' = trivial_bound st \<and> verbose st' = verbose st \<and>
     final_bound st' = final_bound st"
  unfolding set_weights_and_solve_def
  by (drule lagrangian_Inr) simp

lemma main_iter_working_unfold:
  assumes "update_Ws E (world st) (localWs st) = (True, ws, w1)"
    and "main_iter E ns ext st = Inr st'"
  shows "\<exists>st2 b st3 st4 st5.
      hook_if E ext miditer
        (st\<lparr>localWs := ws, world := w1, trace := trace st @ [UpdateWs True]\<rparr>) = Inr st2
    \<and> set_weights_and_solve E ns PRIOR_SOLUTION st2 = Inr (b, st3)
    \<and> hook_if E ext enditer st3 = Inr st4
    \<and> hook_if E ext enditer_after_sync (send_if_not_None b st4) = Inr st5
    \<and> st' = st5\<lparr>opt := (opt st5)\<lparr>PHIter := PHIter (opt st5) + 1\<rparr>\<rparr>"
  using assms
  apply (simp add: main_iter_def)
  apply (simp add: Let_def case_sum_eq_Inr)
  apply blast
  done

lemma main_iter_idle_unfold:
  assumes "update_Ws E (world st) (localWs st) = (False, ws, w1)"
  shows "main_iter E ns ext st =
     do_while_waiting_for_new_Ws E ns PRIOR_SOLUTION
       (st\<lparr>localWs := ws, world := w1, trace := trace st @ [UpdateWs False]\<rparr>)"
  using assms by (simp add: main_iter_def)

lemma do_while_waiting_off:
  "\<not> subgradient_while_waiting (opt st) \<Longrightarrow>
     do_while_waiting_for_new_Ws E ns ws st = Inr st"
  by (simp add: do_while_waiting_for_new_Ws_def)

lemma do_while_waiting_on:
  assumes "subgradient_while_waiting (opt st)"
    and "do_while_waiting_for_new_Ws E ns ws st = Inr st'"
  shows "\<exists>b st2.
      lagrangian E ns ws
        (st\<lparr>opt := Update_W E (verbose st) (Compute_Xbar E (verbose st) (opt st)),
            trace := trace st @ [Called_Compute_Xbar, Called_Update_W]\<rparr>) = Inr (b, st2)
    \<and> st' = send_if_not_None b st2"
  using assms
  apply (simp add: do_while_waiting_for_new_Ws_def)
  apply (simp add: Let_def case_sum_eq_Inr)
  apply auto
  done

lemma main_iter_working_trace:
  assumes u: "update_Ws E (world st) (localWs st) = (True, ws, w1)"
    and m: "main_iter E ns ext st = Inr st'"
  shows "\<exists>b. trace st' = trace st @ [UpdateWs True] @ hk ext miditer
        @ [Called_W_from_flat_list ws, Called_receive_nonant_bounds,
           Called_solve_loop PRIOR_SOLUTION ns]
        @ hk ext enditer @ (case b of None \<Rightarrow> [] | Some v \<Rightarrow> [SendBound (Some v)])
        @ hk ext enditer_after_sync
      \<and> bound st' = (case b of None \<Rightarrow> bound st | Some v \<Rightarrow> Some v)
      \<and> localWs st' = ws"
proof -
  from main_iter_working_unfold[OF u m] obtain st2 b st3 st4 st5 where
    h1: "hook_if E ext miditer
        (st\<lparr>localWs := ws, world := w1, trace := trace st @ [UpdateWs True]\<rparr>) = Inr st2"
    and s: "set_weights_and_solve E ns PRIOR_SOLUTION st2 = Inr (b, st3)"
    and h2: "hook_if E ext enditer st3 = Inr st4"
    and h3: "hook_if E ext enditer_after_sync (send_if_not_None b st4) = Inr st5"
    and e: "st' = st5\<lparr>opt := (opt st5)\<lparr>PHIter := PHIter (opt st5) + 1\<rparr>\<rparr>"
    by blast
  show ?thesis
    using hook_if_Inr[OF h1] set_weights_and_solve_Inr[OF s] hook_if_Inr[OF h2]
      hook_if_Inr[OF h3] e
    by (intro exI[of _ b]) (simp split: option.splits)
qed

lemma main_iter_idle_trace:
  assumes u: "update_Ws E (world st) (localWs st) = (False, ws, w1)"
    and m: "main_iter E ns ext st = Inr st'"
  shows "\<exists>b. trace st' = trace st @ [UpdateWs False]
        @ (if subgradient_while_waiting (opt st)
           then [Called_Compute_Xbar, Called_Update_W, Called_receive_nonant_bounds,
                 Called_solve_loop PRIOR_SOLUTION ns]
                @ (case b of None \<Rightarrow> [] | Some v \<Rightarrow> [SendBound (Some v)])
           else [])
      \<and> bound st' = (if subgradient_while_waiting (opt st)
                      then (case b of None \<Rightarrow> bound st | Some v \<Rightarrow> Some v) else bound st)
      \<and> localWs st' = ws"
proof (cases "subgradient_while_waiting (opt st)")
  case False
  with m show ?thesis
    by (auto simp: main_iter_idle_unfold[OF u] do_while_waiting_off)
next
  case True
  let ?st1 = "st\<lparr>localWs := ws, world := w1, trace := trace st @ [UpdateWs False]\<rparr>"
  from True have on: "subgradient_while_waiting (opt ?st1)" by simp
  from m have d: "do_while_waiting_for_new_Ws E ns PRIOR_SOLUTION ?st1 = Inr st'"
    by (simp add: main_iter_idle_unfold[OF u])
  from do_while_waiting_on[OF on d] obtain b st2 where
    l: "lagrangian E ns PRIOR_SOLUTION
        (?st1\<lparr>opt := Update_W E (verbose ?st1) (Compute_Xbar E (verbose ?st1) (opt ?st1)),
            trace := trace ?st1 @ [Called_Compute_Xbar, Called_Update_W]\<rparr>) = Inr (b, st2)"
    and e: "st' = send_if_not_None b st2" by blast
  show ?thesis
    using lagrangian_Inr[OF l] e True
    by (intro exI[of _ b]) (simp split: option.splits)
qed

subsection \<open>The loop and the whole run\<close>

lemma last_reported_Some:
  "(last_reported es = Some b) = (reports es \<noteq> [] \<and> last (reports es) = b)"
  by (cases "reports es" rule: rev_cases) (simp_all add: last_reported_def)

lemma no_kill_in_hk [simp]: "KillSignal k \<notin> set (hk ext h)"
  by (simp add: hk_def)

lemma update_Ws_cases:
  obtains ws w1 where "update_Ws E w cur = (True, ws, w1)"
  | ws w1 where "update_Ws E w cur = (False, ws, w1)"
  by (cases "update_Ws E w cur") (metis (full_types))

lemma main_iter_trace_ext:
  assumes "main_iter E ns ext st = Inr st'"
  shows "\<exists>evs. trace st' = trace st @ evs \<and> (\<forall>k. KillSignal k \<notin> set evs) \<and>
     (if reports evs = [] then bound st' = bound st
      else bound st' = last (reports evs))"
proof (cases rule: update_Ws_cases[of E "world st" "localWs st"])
  case (1 ws w1)
  from main_iter_working_trace[OF 1 assms] show ?thesis
    by (elim exE, rename_tac b, case_tac b) auto
next
  case (2 ws w1)
  from main_iter_idle_trace[OF 2 assms] show ?thesis
    by (elim exE, rename_tac b, case_tac b) (auto split: if_splits)
qed

lemma main_loop_trace:
  "main_loop E ns ext n st = Some (Inr st') \<Longrightarrow>
     \<exists>evs. trace st' = trace st @ evs @ [KillSignal True] \<and> KillSignal True \<notin> set evs \<and>
       (if reports evs = [] then bound st' = bound st else bound st' = last (reports evs))"
proof (induction n arbitrary: st)
  case 0
  then show ?case by simp
next
  case (Suc n)
  obtain k w1 where g: "got_kill_signal E (world st) = (k, w1)"
    by (cases "got_kill_signal E (world st)")
  let ?st1 = "st\<lparr>world := w1, trace := trace st @ [KillSignal k]\<rparr>"
  show ?case
  proof (cases k)
    case True
    with Suc.prems g have "st' = ?st1" by simp
    with True show ?thesis by simp
  next
    case False
    with Suc.prems g obtain st2 where m: "main_iter E ns ext ?st1 = Inr st2"
      and l: "main_loop E ns ext n st2 = Some (Inr st')"
      by (cases "main_iter E ns ext ?st1") auto
    from main_iter_trace_ext[OF m] obtain evs1 where
      e1: "trace st2 = trace ?st1 @ evs1" "\<forall>k. KillSignal k \<notin> set evs1"
      "if reports evs1 = [] then bound st2 = bound ?st1 else bound st2 = last (reports evs1)"
      by blast
    from Suc.IH[OF l] obtain evs2 where
      e2: "trace st' = trace st2 @ evs2 @ [KillSignal True]" "KillSignal True \<notin> set evs2"
      "if reports evs2 = [] then bound st' = bound st2 else bound st' = last (reports evs2)"
      by blast
    show ?thesis
      using e1 e2 False
      by (intro exI[of _ "KillSignal False # evs1 @ evs2"]) (auto split: if_splits)
  qed
qed

lemma main_trace:
  assumes "main E ns n st = Some (Inr st')"
  shows "\<exists>evs. trace st' = trace st @ evs @ [KillSignal True] \<and> KillSignal True \<notin> set evs \<and>
       reports evs \<noteq> [] \<and> bound st' = last (reports evs)"
proof -
  from assms obtain ext st1 where i: "main_iter0 E ns st = Inr (ext, st1)"
    and l: "main_loop E ns ext n st1 = Some (Inr st')"
    by (cases "main_iter0 E ns st") (auto simp: main_def)
  from main_loop_trace[OF l] obtain evs where
    e: "trace st' = trace st1 @ evs @ [KillSignal True]" "KillSignal True \<notin> set evs"
      "if reports evs = [] then bound st' = bound st1 else bound st' = last (reports evs)"
    by blast
  let ?evs0 = "[Called_PH_Prep, Called_reenable_W, Called_create_solvers]
        @ hk ext pre_iter0
        @ [Called_receive_nonant_bounds, Called_solve_loop USER_SOLUTION ns]
        @ hk ext post_iter0 @ [SendBound (trivial_bound st1)] @ hk ext post_iter0_after_sync"
  from main_iter0_trace[OF i] have
    t: "trace st1 = trace st @ ?evs0" and b: "bound st1 = trivial_bound st1" by simp_all
  show ?thesis
    using e t b
    by (intro exI[of _ "?evs0 @ evs"]) (auto split: if_splits)
qed

lemma finalize_result:
  "finalize E st =
     (bound st,
      if extensions (opt st) \<noteq> None \<and> post_everything \<in> set (extobject (opt st))
      then st\<lparr>final_bound := bound st, opt := ext_hook E post_everything (opt st),
              trace := trace st @ [Hook post_everything]\<rparr>
      else st\<lparr>final_bound := bound st\<rparr>)"
  by (simp add: finalize_def Let_def)

subsection \<open>Runs without an extension do not depend on the hooks\<close>

lemma lagrangian_hook_indep [simp]:
  "lagrangian (E\<lparr>ext_hook := h\<rparr>) ns ws st = lagrangian E ns ws st"
  by (simp add: lagrangian_def Let_def split: prod.splits option.splits if_splits)

lemma lagrangian_prep_hook_indep [simp]:
  "lagrangian_prep (E\<lparr>ext_hook := h\<rparr>) st = lagrangian_prep E st"
  by (simp add: lagrangian_prep_def)

lemma set_weights_and_solve_hook_indep [simp]:
  "set_weights_and_solve (E\<lparr>ext_hook := h\<rparr>) ns ws st = set_weights_and_solve E ns ws st"
  by (simp add: set_weights_and_solve_def)

lemma do_while_waiting_hook_indep [simp]:
  "do_while_waiting_for_new_Ws (E\<lparr>ext_hook := h\<rparr>) ns ws st =
     do_while_waiting_for_new_Ws E ns ws st"
  by (simp add: do_while_waiting_for_new_Ws_def Let_def)

lemma hook_if_False [simp]: "hook_if E False h st = Inr st"
  by (simp add: hook_if_def)

lemma main_iter_hook_indep:
  "main_iter (E\<lparr>ext_hook := h\<rparr>) ns False st = main_iter E ns False st"
  by (simp add: main_iter_def Let_def split: prod.splits sum.splits)

lemma main_loop_hook_indep:
  "main_loop (E\<lparr>ext_hook := h\<rparr>) ns False n st = main_loop E ns False n st"
  by (induction n arbitrary: st) (simp_all add: main_iter_hook_indep Let_def split: prod.splits sum.splits)

lemma main_iter0_hook_indep:
  "extensions (opt st) = None \<Longrightarrow>
     main_iter0 (E\<lparr>ext_hook := h\<rparr>) ns st = main_iter0 E ns st"
  by (simp add: main_iter0_def Let_def split: option.splits sum.splits prod.splits)

lemma main_iter0_ext:
  "main_iter0 E ns st = Inr (ext, st') \<Longrightarrow> ext = (extensions (opt st) \<noteq> None)"
  by (drule main_iter0_trace) simp

lemma main_hook_indep:
  assumes "extensions (opt st) = None"
  shows "main (E\<lparr>ext_hook := h\<rparr>) ns n st = main E ns n st"
proof (cases "main_iter0 E ns st")
  case (Inl e)
  with assms show ?thesis by (simp add: main_def main_iter0_hook_indep)
next
  case (Inr p)
  obtain ext st1 where p: "p = (ext, st1)" by (cases p)
  with Inr main_iter0_ext[of E ns st ext st1] assms have "ext = False" by simp
  with Inr p assms show ?thesis
    by (simp add: main_def main_iter0_hook_indep main_loop_hook_indep)
qed

lemma finalize_hook_indep:
  "extensions (opt st) = None \<Longrightarrow> finalize (E\<lparr>ext_hook := h\<rparr>) st = finalize E st"
  by (simp add: finalize_def)

text \<open>With no extension registered the traces hold no hook entry.\<close>

lemma hk_False [simp]: "hk False h = []"
  by (simp add: hk_def)

lemma main_iter_no_hooks:
  assumes "main_iter E ns False st = Inr st'"
  shows "\<exists>evs. trace st' = trace st @ evs \<and> (\<forall>h. Hook h \<notin> set evs)"
proof (cases rule: update_Ws_cases[of E "world st" "localWs st"])
  case (1 ws w1)
  from main_iter_working_trace[OF 1 assms] show ?thesis
    by (elim exE, rename_tac b, case_tac b) auto
next
  case (2 ws w1)
  from main_iter_idle_trace[OF 2 assms] show ?thesis
    by (elim exE, rename_tac b, case_tac b) (auto split: if_splits)
qed

lemma main_loop_no_hooks:
  "main_loop E ns False n st = Some (Inr st') \<Longrightarrow>
     \<exists>evs. trace st' = trace st @ evs \<and> (\<forall>h. Hook h \<notin> set evs)"
proof (induction n arbitrary: st)
  case 0
  then show ?case by simp
next
  case (Suc n)
  obtain k w1 where g: "got_kill_signal E (world st) = (k, w1)"
    by (cases "got_kill_signal E (world st)")
  let ?st1 = "st\<lparr>world := w1, trace := trace st @ [KillSignal k]\<rparr>"
  show ?case
  proof (cases k)
    case True
    with Suc.prems g have "st' = ?st1" by simp
    then show ?thesis by simp
  next
    case False
    with Suc.prems g obtain st2 where m: "main_iter E ns False ?st1 = Inr st2"
      and l: "main_loop E ns False n st2 = Some (Inr st')"
      by (cases "main_iter E ns False ?st1") auto
    from main_iter_no_hooks[OF m] obtain evs1 where
      e1: "trace st2 = trace ?st1 @ evs1" "\<forall>h. Hook h \<notin> set evs1" by blast
    from Suc.IH[OF l] obtain evs2 where
      e2: "trace st' = trace st2 @ evs2" "\<forall>h. Hook h \<notin> set evs2" by blast
    show ?thesis
      using e1 e2 by (intro exI[of _ "KillSignal k # evs1 @ evs2"]) auto
  qed
qed

lemma main_no_hooks:
  assumes "extensions (opt st) = None" and "main E ns n st = Some (Inr st')"
  shows "\<exists>evs. trace st' = trace st @ evs \<and> (\<forall>h. Hook h \<notin> set evs)"
proof -
  from assms(2) obtain ext st1 where i: "main_iter0 E ns st = Inr (ext, st1)"
    and l: "main_loop E ns ext n st1 = Some (Inr st')"
    by (cases "main_iter0 E ns st") (auto simp: main_def)
  from main_iter0_ext[OF i] assms(1) have x: "ext = False" by simp
  from main_loop_no_hooks[OF l[unfolded x]] obtain evs where
    e: "trace st' = trace st1 @ evs" "\<forall>h. Hook h \<notin> set evs" by blast
  from main_iter0_trace[OF i] x have
    t: "trace st1 = trace st @ [Called_PH_Prep, Called_reenable_W, Called_create_solvers,
        Called_receive_nonant_bounds, Called_solve_loop USER_SOLUTION ns,
        SendBound (trivial_bound st1)]" by simp
  show ?thesis
    using e t
    by (intro exI[of _ "[Called_PH_Prep, Called_reenable_W, Called_create_solvers,
        Called_receive_nonant_bounds, Called_solve_loop USER_SOLUTION ns,
        SendBound (trivial_bound st1)] @ evs"]) auto
qed

lemma main_loop_fuel_mono:
  "main_loop E ns ext n st = Some r \<Longrightarrow> main_loop E ns ext (n + k) st = Some r"
proof (induction n arbitrary: st)
  case 0
  then show ?case by simp
next
  case (Suc n)
  then show ?case
    by (auto simp: Let_def split: prod.splits sum.splits if_splits)
qed

subsection \<open>Scripted runs\<close>

lemmas spoke_run_defs =
  main_def main_iter0_def main_iter_def hook_if_def call_hook_def lagrangian_prep_def
  lagrangian_def send_bound_def set_weights_and_solve_def send_if_not_None_def
  do_while_waiting_for_new_Ws_def subgradient_while_waiting_def finalize_def
  script_env_def script_opt_def script_spoke_def base_options_def
  script_got_kill_signal_def script_update_Ws_def
  spec_receive_nonant_bounds_def spec_solve_loop_def spec_Ebound_def
  spec_W_from_flat_list_def expectation_def solve_all_def linear_solver_def
  two_subproblems_def infeasible_subproblems_def main_hooks_def

subsection \<open>The claims about the spoke\<close>

text \<open>
  C1 (the part the code does not keep). A solve that yields no bound must lead to no
  report, on the iteration-0 step as on every other. The loop's two steps test
  \<open>bound is not None\<close> before they send; \<open>main\<close> sends the trivial bound untested. With
  an infeasible relaxation at iteration 0 the spoke calls \<open>send_bound(None)\<close>: the run
  below ends its iteration 0 with the report \<open>None\<close>.
\<close>

theorem iteration0_reports_None:
  "(case main_iter0 script_env False
           (script_spoke (script_opt base_options None [] infeasible_subproblems) [] []) of
      Inl e \<Rightarrow> []
    | Inr (ext, st') \<Rightarrow> trace st') =
   [Called_PH_Prep, Called_reenable_W, Called_create_solvers, Called_receive_nonant_bounds,
    Called_solve_loop USER_SOLUTION False, SendBound None]"
  by (simp add: spoke_run_defs)

text \<open>
  The steps of the loop do keep it: a WORKING step and an idle step whose solve yields
  no bound add no report, and the step returns normally.
\<close>

lemma loop_step_without_bound:
  assumes "main_iter E ns ext st = Inr st'" and "\<And>vb ob. Ebound E vb ob = None"
  shows "reports (trace st') = reports (trace st) \<and> bound st' = bound st"
proof (cases rule: update_Ws_cases[of E "world st" "localWs st"])
  case (1 ws w1)
  from main_iter_working_unfold[OF 1 assms(1)] obtain st2 b st3 st4 st5 where
    h1: "hook_if E ext miditer
        (st\<lparr>localWs := ws, world := w1, trace := trace st @ [UpdateWs True]\<rparr>) = Inr st2"
    and s: "set_weights_and_solve E ns PRIOR_SOLUTION st2 = Inr (b, st3)"
    and h2: "hook_if E ext enditer st3 = Inr st4"
    and h3: "hook_if E ext enditer_after_sync (send_if_not_None b st4) = Inr st5"
    and e: "st' = st5\<lparr>opt := (opt st5)\<lparr>PHIter := PHIter (opt st5) + 1\<rparr>\<rparr>"
    by blast
  from s assms(2) have b: "b = None"
    unfolding set_weights_and_solve_def by (auto dest: lagrangian_result)
  show ?thesis
    using hook_if_Inr[OF h1] set_weights_and_solve_Inr[OF s] hook_if_Inr[OF h2]
      hook_if_Inr[OF h3] e b
    by simp
next
  case (2 ws w1)
  show ?thesis
  proof (cases "subgradient_while_waiting (opt st)")
    case False
    with assms(1) show ?thesis
      by (auto simp: main_iter_idle_unfold[OF 2] do_while_waiting_off)
  next
    case True
    let ?st1 = "st\<lparr>localWs := ws, world := w1, trace := trace st @ [UpdateWs False]\<rparr>"
    from True have on: "subgradient_while_waiting (opt ?st1)" by simp
    from assms(1) have d: "do_while_waiting_for_new_Ws E ns PRIOR_SOLUTION ?st1 = Inr st'"
      by (simp add: main_iter_idle_unfold[OF 2])
    from do_while_waiting_on[OF on d] obtain b st2 where
      l: "lagrangian E ns PRIOR_SOLUTION
          (?st1\<lparr>opt := Update_W E (verbose ?st1) (Compute_Xbar E (verbose ?st1) (opt ?st1)),
              trace := trace ?st1 @ [Called_Compute_Xbar, Called_Update_W]\<rparr>) = Inr (b, st2)"
      and e: "st' = send_if_not_None b st2" by blast
    from l assms(2) have b: "b = None" by (auto dest: lagrangian_result)
    show ?thesis
      using lagrangian_Inr[OF l] e b by simp
  qed
qed

text \<open>
  C2. Once \<open>got_kill_signal()\<close> has returned true the spoke calls \<open>send_bound\<close> no more:
  a run of \<open>main\<close> that returns has observed the kill signal exactly once, as the last
  thing it did; \<open>finalize\<close> then returns the stored bound and adds at most the
  \<open>post_everything\<close> hook, so no report and no solve follow the signal. And a loop that
  reads the signal as true returns at once, whatever the fuel.
\<close>

theorem no_report_after_kill_signal:
  "(main E ns fuel st = Some (Inr st1) \<longrightarrow>
      (\<exists>evs post.
          trace st1 = trace st @ evs @ [KillSignal True] \<and> KillSignal True \<notin> set evs \<and>
          trace (snd (finalize E st1)) = trace st1 @ post \<and>
          (post = [] \<or> post = [Hook post_everything]) \<and>
          fst (finalize E st1) = bound st1 \<and> bound (snd (finalize E st1)) = bound st1)) \<and>
   (got_kill_signal E (world s) = (True, w1) \<longrightarrow>
      main_loop E ns ext (Suc n) s =
        Some (Inr (s\<lparr>world := w1, trace := trace s @ [KillSignal True]\<rparr>)))"
proof (intro conjI impI)
  assume m: "main E ns fuel st = Some (Inr st1)"
  from main_trace[OF m] obtain evs where
    e: "trace st1 = trace st @ evs @ [KillSignal True]" "KillSignal True \<notin> set evs"
    by blast
  show "\<exists>evs post.
          trace st1 = trace st @ evs @ [KillSignal True] \<and> KillSignal True \<notin> set evs \<and>
          trace (snd (finalize E st1)) = trace st1 @ post \<and>
          (post = [] \<or> post = [Hook post_everything]) \<and>
          fst (finalize E st1) = bound st1 \<and> bound (snd (finalize E st1)) = bound st1"
    using e
    by (intro exI[of _ evs]
        exI[of _ "if extensions (opt st1) \<noteq> None \<and> post_everything \<in> set (extobject (opt st1))
                  then [Hook post_everything] else []"])
       (simp add: finalize_result)
next
  assume "got_kill_signal E (world s) = (True, w1)"
  then show "main_loop E ns ext (Suc n) s =
        Some (Inr (s\<lparr>world := w1, trace := trace s @ [KillSignal True]\<rparr>))"
    by simp
qed

theorem no_report_after_kill_signal_witness:
  "(\<exists>st1. main script_env False (Suc (Suc (Suc 0)))
            (script_spoke (script_opt base_options None [] two_subproblems) [False, False]
               [Some [5, -3], None]) = Some (Inr st1) \<and>
      reports (trace (snd (finalize script_env st1))) = [Some 8, Some 14] \<and>
      last (trace (snd (finalize script_env st1))) = KillSignal True \<and>
      fst (finalize script_env st1) = Some 14) \<and>
   got_kill_signal script_env
      (world (script_spoke (script_opt base_options None [] two_subproblems) [True] [])) =
      (True, \<lparr>kills = [], updates = []\<rparr>) \<and>
   main_loop script_env False False (Suc 0)
      (script_spoke (script_opt base_options None [] two_subproblems) [True] []) =
     Some (Inr ((script_spoke (script_opt base_options None [] two_subproblems) [True] [])
        \<lparr>world := \<lparr>kills = [], updates = []\<rparr>, trace := [KillSignal True]\<rparr>))"
proof -
  let ?st = "script_spoke (script_opt base_options None [] two_subproblems) [False, False]
               [Some [5, -3], None]"
  let ?s = "script_spoke (script_opt base_options None [] two_subproblems) [True] []"
  have "\<exists>st1. main script_env False (Suc (Suc (Suc 0))) ?st = Some (Inr st1)"
    by (simp add: spoke_run_defs)
  then obtain st1 where h: "main script_env False (Suc (Suc (Suc 0))) ?st = Some (Inr st1)"
    by blast
  have g: "got_kill_signal script_env (world ?s) = (True, \<lparr>kills = [], updates = []\<rparr>)"
    by (simp add: spoke_run_defs)
  note t = no_report_after_kill_signal[of script_env False "Suc (Suc (Suc 0))" ?st st1 ?s
      "\<lparr>kills = [], updates = []\<rparr>" False 0]
  from t h obtain evs post where
    c: "trace st1 = trace ?st @ evs @ [KillSignal True]"
       "trace (snd (finalize script_env st1)) = trace st1 @ post"
       "post = [] \<or> post = [Hook post_everything]"
       "fst (finalize script_env st1) = bound st1"
    by blast
  from h have v: "reports (trace st1) = [Some 8, Some 14]" "bound st1 = Some 14"
    "extensions (opt st1) = None"
    by (auto simp: spoke_run_defs)
  from v(3) have p: "trace (snd (finalize script_env st1)) = trace st1"
    by (simp add: finalize_result)
  from t g have l: "main_loop script_env False False (Suc 0) ?s =
     Some (Inr (?s\<lparr>world := \<lparr>kills = [], updates = []\<rparr>, trace := trace ?s @ [KillSignal True]\<rparr>))"
    by blast
  have ts: "trace ?s = []" by (simp add: script_spoke_def)
  show ?thesis
    using h c v p g l ts by (intro conjI exI[of _ st1]) simp_all
qed

text \<open>
  C3. Iteration 0 comes before any poll: \<open>main\<close> prepares, solves once with the
  \<open>USER_SOLUTION\<close> warmstart on the optimisation object as the caller set it up (no
  \<open>update_Ws\<close>, no \<open>W_from_flat_list\<close>: the local weights were never set from a
  published version), stores the result as the trivial bound and reports it with
  \<open>send_bound\<close>; only then does the polling loop start.
\<close>

theorem trivial_bound_before_loop:
  assumes "main_iter0 E ns st = Inr (ext, st')"
  shows "trace st' = trace st @ [Called_PH_Prep, Called_reenable_W, Called_create_solvers]
        @ hk ext pre_iter0
        @ [Called_receive_nonant_bounds, Called_solve_loop USER_SOLUTION ns]
        @ hk ext post_iter0 @ [SendBound (trivial_bound st')] @ hk ext post_iter0_after_sync \<and>
     bound st' = trivial_bound st' \<and> localWs st' = localWs st \<and>
     main E ns fuel st = main_loop E ns ext fuel st' \<and>
     (let o0 = create_solvers E (reenable_W E (PH_Prep E False (opt st)));
          o1 = (if ext then ext_hook E pre_iter0 o0 else o0)\<lparr>PHIter := 0\<rparr>;
          o2 = snd (receive_nonant_bounds E (world st) o1)
      in \<exists>vb tee. options o2 ''verbose'' = Some vb \<and>
           trivial_bound st' =
             Ebound E vb (solve_loop E
               \<lparr>sa_solver_options = current_solver_options o2, sa_dtiming = False,
                sa_gripe = True, sa_tee = tee, sa_verbose = vb, sa_need_solution = ns,
                sa_warmstart = USER_SOLUTION\<rparr> o2))"
proof -
  from main_iter0_unfold[OF assms] obtain vb st2 b st3 st4  where
    vb: "options (opt st) ''verbose'' = Some vb"
    and h1: "hook_if E ext pre_iter0 (lagrangian_prep E (st\<lparr>verbose := vb\<rparr>)) = Inr st2"
    and l: "lagrangian E ns USER_SOLUTION (st2\<lparr>opt := (opt st2)\<lparr>PHIter := 0\<rparr>\<rparr>) = Inr (b, st3)"
    and h2: "hook_if E ext post_iter0 (st3\<lparr>trivial_bound := b\<rparr>) = Inr st4"
    and h3: "hook_if E ext post_iter0_after_sync
        (send_bound (trivial_bound st4)
          (st4\<lparr>opt := (opt st4)\<lparr>PHIter := PHIter (opt st4) + 1,
                current_solver_options := iterk_solver_options (opt st4)\<rparr>\<rparr>)) = Inr st'"
    by blast
  from hook_if_Inr[OF h2] hook_if_Inr[OF h3] have tb: "trivial_bound st' = b" by simp
  from hook_if_Inr[OF h1] have
    o2: "opt st2 = (if ext then ext_hook E pre_iter0
                      (create_solvers E (reenable_W E (PH_Prep E False (opt st))))
                    else create_solvers E (reenable_W E (PH_Prep E False (opt st))))"
    and w2: "world st2 = world st" by simp_all
  have m: "main E ns fuel st = main_loop E ns ext fuel st'"
    using assms by (simp add: main_def)
  from lagrangian_result[OF l] tb o2 w2 have
    "let o0 = create_solvers E (reenable_W E (PH_Prep E False (opt st)));
          o1 = (if ext then ext_hook E pre_iter0 o0 else o0)\<lparr>PHIter := 0\<rparr>;
          o2 = snd (receive_nonant_bounds E (world st) o1)
      in \<exists>vb tee. options o2 ''verbose'' = Some vb \<and>
           trivial_bound st' =
             Ebound E vb (solve_loop E
               \<lparr>sa_solver_options = current_solver_options o2, sa_dtiming = False,
                sa_gripe = True, sa_tee = tee, sa_verbose = vb, sa_need_solution = ns,
                sa_warmstart = USER_SOLUTION\<rparr> o2)"
    unfolding Let_def by (cases ext) auto
  with main_iter0_trace[OF assms] m show ?thesis by simp
qed

theorem trivial_bound_before_loop_witness:
  "\<exists>st'. main_iter0 script_env False
            (script_spoke (script_opt base_options None [] two_subproblems) [False]
               [Some [5, -3]]) = Inr (False, st') \<and>
      trace st' = [Called_PH_Prep, Called_reenable_W, Called_create_solvers,
                   Called_receive_nonant_bounds, Called_solve_loop USER_SOLUTION False,
                   SendBound (Some 8)] \<and>
      bound st' = Some 8 \<and> localWs st' = [] \<and>
      world st' = \<lparr>kills = [False], updates = [Some [5, -3]]\<rparr>"
proof -
  let ?st = "script_spoke (script_opt base_options None [] two_subproblems) [False]
               [Some [5, -3]]"
  have "\<exists>st'. main_iter0 script_env False ?st = Inr (False, st')"
    by (simp add: spoke_run_defs)
  then obtain st' where h: "main_iter0 script_env False ?st = Inr (False, st')" by blast
  from h have v: "trivial_bound st' = Some 8"
    "world st' = \<lparr>kills = [False], updates = [Some [5, -3]]\<rparr>"
    by (auto simp: spoke_run_defs)
  have s: "trace ?st = []" "localWs ?st = []" by (simp_all add: script_spoke_def)
  from trivial_bound_before_loop[OF h, of 0] v s h show ?thesis
    by (intro exI[of _ st']) simp
qed

text \<open>
  C5. At a poll that finds no new weights, the idle-time subgradient step runs only
  when the option \<open>subgradient_while_waiting\<close> holds a true value. When the option is
  absent (or false) \<open>do_while_waiting_for_new_Ws\<close> changes nothing, so the poll leaves
  only its own entry in the trace. When it is true the step is \<open>Compute_Xbar\<close>,
  \<open>Update_W\<close>, a solve, and a report of the bound when there is one.
\<close>

theorem idle_step_needs_option:
  assumes "update_Ws E (world st) (localWs st) = (False, ws, w1)"
  shows "subgradient_while_waiting (opt st) =
           (\<exists>v. options (opt st) ''subgradient_while_waiting'' = Some v \<and> truthy v) \<and>
     (\<not> subgradient_while_waiting (opt st) \<longrightarrow>
        do_while_waiting_for_new_Ws E ns PRIOR_SOLUTION st = Inr st \<and>
        main_iter E ns ext st =
          Inr (st\<lparr>localWs := ws, world := w1, trace := trace st @ [UpdateWs False]\<rparr>)) \<and>
     (subgradient_while_waiting (opt st) \<and> main_iter E ns ext st = Inr st' \<longrightarrow>
        (\<exists>b. trace st' = trace st @ [UpdateWs False, Called_Compute_Xbar, Called_Update_W,
                 Called_receive_nonant_bounds, Called_solve_loop PRIOR_SOLUTION ns]
                 @ (case b of None \<Rightarrow> [] | Some v \<Rightarrow> [SendBound (Some v)])))"
proof (intro conjI impI)
  show "subgradient_while_waiting (opt st) =
           (\<exists>v. options (opt st) ''subgradient_while_waiting'' = Some v \<and> truthy v)"
    by (simp add: subgradient_while_waiting_def split: option.splits)
next
  assume off: "\<not> subgradient_while_waiting (opt st)"
  then show "do_while_waiting_for_new_Ws E ns PRIOR_SOLUTION st = Inr st"
    by (rule do_while_waiting_off)
  from off show "main_iter E ns ext st =
          Inr (st\<lparr>localWs := ws, world := w1, trace := trace st @ [UpdateWs False]\<rparr>)"
    by (simp add: main_iter_idle_unfold[OF assms] do_while_waiting_off)
next
  assume "subgradient_while_waiting (opt st) \<and> main_iter E ns ext st = Inr st'"
  then have on: "subgradient_while_waiting (opt st)" and m: "main_iter E ns ext st = Inr st'"
    by simp_all
  from main_iter_idle_trace[OF assms m] on
  show "\<exists>b. trace st' = trace st @ [UpdateWs False, Called_Compute_Xbar, Called_Update_W,
                 Called_receive_nonant_bounds, Called_solve_loop PRIOR_SOLUTION ns]
                 @ (case b of None \<Rightarrow> [] | Some v \<Rightarrow> [SendBound (Some v)])"
    by auto
qed

theorem idle_step_needs_option_witness:
  "update_Ws script_env
      (world (script_spoke (script_opt base_options None [] two_subproblems) [] [None]))
      (localWs (script_spoke (script_opt base_options None [] two_subproblems) [] [None])) =
      (False, [], \<lparr>kills = [], updates = []\<rparr>) \<and>
   \<not> subgradient_while_waiting (script_opt base_options None [] two_subproblems) \<and>
   main_iter script_env False False
      (script_spoke (script_opt base_options None [] two_subproblems) [] [None]) =
     Inr ((script_spoke (script_opt base_options None [] two_subproblems) [] [None])
            \<lparr>localWs := [], world := \<lparr>kills = [], updates = []\<rparr>, trace := [UpdateWs False]\<rparr>) \<and>
   subgradient_while_waiting
      (script_opt (base_options(''subgradient_while_waiting'' \<mapsto> PBool True)) None []
         two_subproblems) \<and>
   (\<exists>st'. main_iter script_env False False
            (script_spoke
               (script_opt (base_options(''subgradient_while_waiting'' \<mapsto> PBool True)) None []
                  two_subproblems) [] [None]) = Inr st' \<and>
      trace st' = [UpdateWs False, Called_Compute_Xbar, Called_Update_W,
                   Called_receive_nonant_bounds, Called_solve_loop PRIOR_SOLUTION False,
                   SendBound (Some 14)])"
proof -
  let ?off = "script_spoke (script_opt base_options None [] two_subproblems) [] [None]"
  let ?on = "script_spoke
               (script_opt (base_options(''subgradient_while_waiting'' \<mapsto> PBool True)) None []
                  two_subproblems) [] [None]"
  let ?w = "\<lparr>kills = [], updates = []\<rparr>"
  have u1: "update_Ws script_env (world ?off) (localWs ?off) = (False, [], ?w)"
    by (simp add: spoke_run_defs)
  have u2: "update_Ws script_env (world ?on) (localWs ?on) = (False, [], ?w)"
    by (simp add: spoke_run_defs)
  have off: "\<not> subgradient_while_waiting (opt ?off)"
    by (simp add: spoke_run_defs)
  have on: "subgradient_while_waiting (opt ?on)"
    by (simp add: spoke_run_defs)
  have "\<exists>st'. main_iter script_env False False ?on = Inr st'"
    by (simp add: spoke_run_defs)
  then obtain st' where h: "main_iter script_env False False ?on = Inr st'" by blast
  from idle_step_needs_option[OF u1, of False False] off have
    c1: "main_iter script_env False False ?off =
          Inr (?off\<lparr>localWs := [], world := ?w, trace := trace ?off @ [UpdateWs False]\<rparr>)"
    by blast
  from idle_step_needs_option[OF u2, of False False st'] on h obtain b where
    c2: "trace st' = trace ?on @ [UpdateWs False, Called_Compute_Xbar, Called_Update_W,
                 Called_receive_nonant_bounds, Called_solve_loop PRIOR_SOLUTION False]
                 @ (case b of None \<Rightarrow> [] | Some v \<Rightarrow> [SendBound (Some v)])"
    by blast
  from h have r: "reports (trace st') = [Some 14]"
    by (auto simp: spoke_run_defs)
  from c2 r have c3: "trace st' = [UpdateWs False, Called_Compute_Xbar, Called_Update_W,
                   Called_receive_nonant_bounds, Called_solve_loop PRIOR_SOLUTION False,
                   SendBound (Some 14)]"
    by (cases b) (simp_all add: script_spoke_def)
  have t: "trace ?off = []" "opt ?off = script_opt base_options None [] two_subproblems"
    "opt ?on = script_opt (base_options(''subgradient_while_waiting'' \<mapsto> PBool True)) None []
                  two_subproblems"
    by (simp_all add: script_spoke_def)
  show ?thesis
    using u1 off on c1 h c3 t by (intro conjI exI[of _ st']) simp_all
qed

text \<open>
  C6. \<open>finalize\<close> stores the spoke's current bound as \<open>final_bound\<close> and returns it, and
  calls the \<open>post_everything\<close> hook before it returns when an extension is registered
  and its object has the hook. After a run of \<open>main\<close> the current bound is the bound of
  the most recent report.
\<close>

theorem finalize_returns_last_report:
  "fst (finalize E t) = bound t \<and> final_bound (snd (finalize E t)) = bound t \<and>
   (extensions (opt t) \<noteq> None \<and> post_everything \<in> set (extobject (opt t)) \<longrightarrow>
      trace (snd (finalize E t)) = trace t @ [Hook post_everything] \<and>
      opt (snd (finalize E t)) = ext_hook E post_everything (opt t)) \<and>
   (main E ns fuel st = Some (Inr st1) \<longrightarrow>
      last_reported (trace st1) = Some (fst (finalize E st1)))"
proof (intro conjI impI)
  assume m: "main E ns fuel st = Some (Inr st1)"
  from main_trace[OF m] obtain evs where
    e: "trace st1 = trace st @ evs @ [KillSignal True]" "reports evs \<noteq> []"
       "bound st1 = last (reports evs)"
    by blast
  then show "last_reported (trace st1) = Some (fst (finalize E st1))"
    by (simp add: last_reported_Some finalize_result)
qed (simp_all add: finalize_result)

theorem finalize_returns_last_report_witness:
  "\<exists>st1. main script_env False (Suc (Suc (Suc 0)))
            (script_spoke (script_opt base_options (Some ''Ext'') (post_everything # main_hooks)
               two_subproblems) [False, False] [Some [5, -3], None]) = Some (Inr st1) \<and>
      reports (trace st1) = [Some 8, Some 14] \<and>
      fst (finalize script_env st1) = Some 14 \<and>
      final_bound (snd (finalize script_env st1)) = Some 14 \<and>
      last (trace (snd (finalize script_env st1))) = Hook post_everything"
proof -
  let ?st = "script_spoke (script_opt base_options (Some ''Ext'') (post_everything # main_hooks)
               two_subproblems) [False, False] [Some [5, -3], None]"
  have "\<exists>st1. main script_env False (Suc (Suc (Suc 0))) ?st = Some (Inr st1)"
    by (simp add: spoke_run_defs)
  then obtain st1 where h: "main script_env False (Suc (Suc (Suc 0))) ?st = Some (Inr st1)"
    by blast
  from h have v: "reports (trace st1) = [Some 8, Some 14]"
    "extensions (opt st1) \<noteq> None \<and> post_everything \<in> set (extobject (opt st1))"
    by (auto simp: spoke_run_defs)
  note t = finalize_returns_last_report[of script_env st1 False "Suc (Suc (Suc 0))" ?st st1]
  from t h have l: "last_reported (trace st1) = Some (fst (finalize script_env st1))"
    by blast
  from l v(1) have f: "fst (finalize script_env st1) = Some 14"
    by (simp add: last_reported_def)
  from t v(2) have p: "trace (snd (finalize script_env st1)) = trace st1 @ [Hook post_everything]"
    by blast
  from t f have fb: "final_bound (snd (finalize script_env st1)) = Some 14"
    by simp
  show ?thesis
    using h v f p fb by (intro exI[of _ st1]) simp
qed

text \<open>
  C4 (on the optimisation object as the spec describes it). A loop iteration in which
  \<open>update_Ws()\<close> reports new weights \<open>ws\<close> sets the local weights from that flat list
  first, then re-solves every local subproblem under \<open>ws\<close>, and reports the
  probability-weighted expectation of the optima; when a subproblem is infeasible there
  is no bound and nothing is reported.
\<close>

theorem working_step_reports_expectation:
  assumes "update_Ws E (world st) (localWs st) = (True, ws, w1)"
    and "main_iter (spec_env solver tighten E) ns ext st = Inr st'"
  shows "let ob = (if ext then ext_hook E miditer (opt st) else opt st);
             subs = map (\<lambda>(p, m). (p, tighten w1 m)) (relaxed_subproblems (internals ob));
             outs = solve_all solver (current_solver_options ob) ws subs
         in trace st' = trace st @ [UpdateWs True] @ hk ext miditer
                @ [Called_W_from_flat_list ws, Called_receive_nonant_bounds,
                   Called_solve_loop PRIOR_SOLUTION ns]
                @ hk ext enditer
                @ (case expectation (map fst subs) outs of
                     None \<Rightarrow> [] | Some v \<Rightarrow> [SendBound (Some v)])
                @ hk ext enditer_after_sync \<and>
            expectation (map fst subs) outs =
              (if list_all feasible outs
               then Some (\<Sum>(p, out)\<leftarrow>zip (map fst subs) outs. p * optimum_value out)
               else None) \<and>
            localWs st' = ws"
proof -
  let ?E = "spec_env solver tighten E"
  have u: "update_Ws ?E (world st) (localWs st) = (True, ws, w1)"
    using assms(1) by (simp add: spec_env_def)
  from main_iter_working_unfold[OF u assms(2)] obtain st2 b st3 st4 st5 where
    h1: "hook_if ?E ext miditer
        (st\<lparr>localWs := ws, world := w1, trace := trace st @ [UpdateWs True]\<rparr>) = Inr st2"
    and s: "set_weights_and_solve ?E ns PRIOR_SOLUTION st2 = Inr (b, st3)"
    and h2: "hook_if ?E ext enditer st3 = Inr st4"
    and h3: "hook_if ?E ext enditer_after_sync (send_if_not_None b st4) = Inr st5"
    and e: "st' = st5\<lparr>opt := (opt st5)\<lparr>PHIter := PHIter (opt st5) + 1\<rparr>\<rparr>"
    by blast
  let ?ob = "if ext then ext_hook E miditer (opt st) else opt st"
  let ?subs = "map (\<lambda>(p, m). (p, tighten w1 m)) (relaxed_subproblems (internals ?ob))"
  let ?outs = "solve_all solver (current_solver_options ?ob) ws ?subs"
  from hook_if_Inr[OF h1] have
    o2: "opt st2 = ?ob" and w2: "world st2 = w1" and l2: "localWs st2 = ws"
    by (simp_all add: spec_env_def)
  from s have
    l: "lagrangian ?E ns PRIOR_SOLUTION
          (st2\<lparr>opt := W_from_flat_list ?E (localWs st2) (opt st2),
              trace := trace st2 @ [Called_W_from_flat_list (localWs st2)]\<rparr>) = Inr (b, st3)"
    by (simp add: set_weights_and_solve_def)
  from lagrangian_result[OF l] o2 w2 l2 have b: "b = expectation (map fst ?subs) ?outs"
    by (auto simp: spec_env_def spec_W_from_flat_list_def spec_receive_nonant_bounds_def
        spec_solve_loop_def spec_Ebound_def solve_all_def comp_def case_prod_unfold)
  have t: "trace st' = trace st @ [UpdateWs True] @ hk ext miditer
                @ [Called_W_from_flat_list ws, Called_receive_nonant_bounds,
                   Called_solve_loop PRIOR_SOLUTION ns]
                @ hk ext enditer
                @ (case b of None \<Rightarrow> [] | Some v \<Rightarrow> [SendBound (Some v)])
                @ hk ext enditer_after_sync \<and> localWs st' = ws"
    using hook_if_Inr[OF h1] set_weights_and_solve_Inr[OF s] hook_if_Inr[OF h2]
      hook_if_Inr[OF h3] e
    by (simp split: option.splits)
  have x: "expectation (map fst ?subs) ?outs =
              (if list_all feasible ?outs
               then Some (\<Sum>(p, out)\<leftarrow>zip (map fst ?subs) ?outs. p * optimum_value out)
               else None)"
    by (simp add: expectation_def)
  show ?thesis
    unfolding Let_def using t b x by simp
qed

lemma script_env_is_spec_env: "spec_env linear_solver (\<lambda>w m. m) script_env = script_env"
  by (simp add: spec_env_def script_env_def)

theorem working_step_reports_expectation_witness:
  "update_Ws script_env
      (world (script_spoke (script_opt base_options None [] two_subproblems) [] [Some [5, -3]]))
      (localWs (script_spoke (script_opt base_options None [] two_subproblems) [] [Some [5, -3]]))
     = (True, [5, -3], \<lparr>kills = [], updates = []\<rparr>) \<and>
   map fst two_subproblems = [6 / 10, 4 / 10] \<and>
   solve_all linear_solver PNone [5, -3] two_subproblems =
     [\<lparr>optimum_value = 10, feasible = True\<rparr>, \<lparr>optimum_value = 20, feasible = True\<rparr>] \<and>
   (\<exists>st'. main_iter (spec_env linear_solver (\<lambda>w m. m) script_env) False False
            (script_spoke (script_opt base_options None [] two_subproblems) [] [Some [5, -3]])
           = Inr st' \<and>
      trace st' = [UpdateWs True, Called_W_from_flat_list [5, -3],
                   Called_receive_nonant_bounds, Called_solve_loop PRIOR_SOLUTION False,
                   SendBound (Some 14)] \<and>
      localWs st' = [5, -3])"
proof -
  let ?st = "script_spoke (script_opt base_options None [] two_subproblems) [] [Some [5, -3]]"
  let ?w = "\<lparr>kills = [], updates = []\<rparr>"
  have u: "update_Ws script_env (world ?st) (localWs ?st) = (True, [5, -3], ?w)"
    by (simp add: spoke_run_defs)
  have "\<exists>st'. main_iter (spec_env linear_solver (\<lambda>w m. m) script_env) False False ?st = Inr st'"
    unfolding script_env_is_spec_env by (simp add: spoke_run_defs)
  then obtain st' where
    h: "main_iter (spec_env linear_solver (\<lambda>w m. m) script_env) False False ?st = Inr st'"
    by blast
  have p: "map fst two_subproblems = [6 / 10, 4 / 10]"
    by (simp add: two_subproblems_def)
  have o: "solve_all linear_solver PNone [5, -3] two_subproblems =
     [\<lparr>optimum_value = 10, feasible = True\<rparr>, \<lparr>optimum_value = 20, feasible = True\<rparr>]"
    by (simp add: solve_all_def two_subproblems_def linear_solver_def)
  have i: "relaxed_subproblems (internals (opt ?st)) = two_subproblems"
    "current_solver_options (opt ?st) = PNone" "trace ?st = []"
    by (simp_all add: script_spoke_def script_opt_def)
  have m: "map (\<lambda>(p, m). (p, m)) two_subproblems = two_subproblems"
    by (simp add: two_subproblems_def)
  from working_step_reports_expectation[OF u h] have
    "trace st' = [UpdateWs True, Called_W_from_flat_list [5, -3],
                   Called_receive_nonant_bounds, Called_solve_loop PRIOR_SOLUTION False,
                   SendBound (Some 14)] \<and>
      localWs st' = [5, -3]"
    unfolding Let_def by (simp add: i m p o expectation_def)
  with u p o h show ?thesis by (intro conjI exI[of _ st']) simp_all
qed

text \<open>
  C7 as stated fails at \<open>finalize\<close>: there the hook is not called on every registered
  extension but only when \<open>hasattr(self.opt.extobject, 'post_everything')\<close> holds. An
  extension that is registered and whose object has the six hooks of \<open>main\<close> but no
  \<open>post_everything\<close> gets no hook call at \<open>finalize\<close>.
\<close>

theorem post_everything_is_probed_counterexample:
  "extensions (opt (script_spoke
      (script_opt base_options (Some ''Ext'') main_hooks two_subproblems) [] [])) \<noteq> None \<and>
   trace (snd (finalize script_env (script_spoke
      (script_opt base_options (Some ''Ext'') main_hooks two_subproblems) [] []))) = []"
  by (simp add: spoke_run_defs)

text \<open>
  C7, amended. The six hooks of \<open>main\<close> are called on the extension object directly, at
  their phase boundaries and only there, exactly when an extension was registered when
  \<open>main\<close> started: \<open>pre_iter0\<close> before and \<open>post_iter0\<close> after the iteration-0 solve,
  \<open>post_iter0_after_sync\<close> after the trivial bound is sent, \<open>miditer\<close> before and
  \<open>enditer\<close>, \<open>enditer_after_sync\<close> after each weight-update solve (around its report);
  an idle poll calls none. \<open>post_everything\<close> is called at \<open>finalize\<close> exactly when an
  extension is registered and its object has that attribute. With no extension
  registered no hook is called, and the run and \<open>finalize\<close> are the same whatever the
  hooks would do.
\<close>

theorem hooks_at_phase_boundaries:
  "(main_iter0 E ns st = Inr (ext, st') \<longrightarrow>
      ext = (extensions (opt st) \<noteq> None) \<and>
      trace st' = trace st @ [Called_PH_Prep, Called_reenable_W, Called_create_solvers]
        @ hk ext pre_iter0
        @ [Called_receive_nonant_bounds, Called_solve_loop USER_SOLUTION ns]
        @ hk ext post_iter0 @ [SendBound (trivial_bound st')]
        @ hk ext post_iter0_after_sync) \<and>
   (update_Ws E (world s) (localWs s) = (True, ws, w1) \<and> main_iter E ns ex s = Inr s' \<longrightarrow>
      (\<exists>rep. trace s' = trace s @ [UpdateWs True] @ hk ex miditer
          @ [Called_W_from_flat_list ws, Called_receive_nonant_bounds,
             Called_solve_loop PRIOR_SOLUTION ns]
          @ hk ex enditer @ rep @ hk ex enditer_after_sync \<and>
        (rep = [] \<or> (\<exists>v. rep = [SendBound (Some v)])))) \<and>
   (update_Ws E (world q) (localWs q) = (False, ws', w1') \<and> main_iter E ns ex' q = Inr q' \<longrightarrow>
      (\<exists>evs. trace q' = trace q @ evs \<and> (\<forall>h. Hook h \<notin> set evs))) \<and>
   trace (snd (finalize E t)) =
      trace t @ hk (extensions (opt t) \<noteq> None \<and> post_everything \<in> set (extobject (opt t)))
                  post_everything \<and>
   (extensions (opt r) = None \<longrightarrow>
      main (E\<lparr>ext_hook := g\<rparr>) ns fuel r = main E ns fuel r \<and>
      finalize (E\<lparr>ext_hook := g\<rparr>) r = finalize E r \<and>
      (\<forall>r'. main E ns fuel r = Some (Inr r') \<longrightarrow>
         (\<exists>evs. trace r' = trace r @ evs \<and> (\<forall>h. Hook h \<notin> set evs))))"
proof (intro conjI impI allI)
  assume "main_iter0 E ns st = Inr (ext, st')"
  from main_iter0_trace[OF this]
  show "ext = (extensions (opt st) \<noteq> None)"
    and "trace st' = trace st @ [Called_PH_Prep, Called_reenable_W, Called_create_solvers]
        @ hk ext pre_iter0
        @ [Called_receive_nonant_bounds, Called_solve_loop USER_SOLUTION ns]
        @ hk ext post_iter0 @ [SendBound (trivial_bound st')]
        @ hk ext post_iter0_after_sync"
    by simp_all
next
  assume "update_Ws E (world s) (localWs s) = (True, ws, w1) \<and> main_iter E ns ex s = Inr s'"
  then have u: "update_Ws E (world s) (localWs s) = (True, ws, w1)"
    and m: "main_iter E ns ex s = Inr s'" by simp_all
  from main_iter_working_trace[OF u m] obtain b where
    t: "trace s' = trace s @ [UpdateWs True] @ hk ex miditer
        @ [Called_W_from_flat_list ws, Called_receive_nonant_bounds,
           Called_solve_loop PRIOR_SOLUTION ns]
        @ hk ex enditer @ (case b of None \<Rightarrow> [] | Some v \<Rightarrow> [SendBound (Some v)])
        @ hk ex enditer_after_sync"
    by blast
  show "\<exists>rep. trace s' = trace s @ [UpdateWs True] @ hk ex miditer
          @ [Called_W_from_flat_list ws, Called_receive_nonant_bounds,
             Called_solve_loop PRIOR_SOLUTION ns]
          @ hk ex enditer @ rep @ hk ex enditer_after_sync \<and>
        (rep = [] \<or> (\<exists>v. rep = [SendBound (Some v)]))"
    using t
    by (intro exI[of _ "case b of None \<Rightarrow> [] | Some v \<Rightarrow> [SendBound (Some v)]"])
       (simp split: option.splits)
next
  assume "update_Ws E (world q) (localWs q) = (False, ws', w1') \<and> main_iter E ns ex' q = Inr q'"
  then have u: "update_Ws E (world q) (localWs q) = (False, ws', w1')"
    and m: "main_iter E ns ex' q = Inr q'" by simp_all
  from main_iter_idle_trace[OF u m] show "\<exists>evs. trace q' = trace q @ evs \<and> (\<forall>h. Hook h \<notin> set evs)"
    by (elim exE, rename_tac b, case_tac b) (auto split: if_splits)
next
  show "trace (snd (finalize E t)) =
      trace t @ hk (extensions (opt t) \<noteq> None \<and> post_everything \<in> set (extobject (opt t)))
                  post_everything"
    by (simp add: finalize_result hk_def)
next
  assume n: "extensions (opt r) = None"
  then show "main (E\<lparr>ext_hook := g\<rparr>) ns fuel r = main E ns fuel r"
    by (rule main_hook_indep)
  from n show "finalize (E\<lparr>ext_hook := g\<rparr>) r = finalize E r"
    by (rule finalize_hook_indep)
  fix r'
  assume "main E ns fuel r = Some (Inr r')"
  with n show "\<exists>evs. trace r' = trace r @ evs \<and> (\<forall>h. Hook h \<notin> set evs)"
    by (rule main_no_hooks)
qed

theorem hooks_at_phase_boundaries_witness:
  "(\<exists>st'. main_iter0 script_env False
       (script_spoke (script_opt base_options (Some ''Ext'') (post_everything # main_hooks)
          two_subproblems) [] []) = Inr (True, st') \<and>
      trace st' = [Called_PH_Prep, Called_reenable_W, Called_create_solvers, Hook pre_iter0,
                   Called_receive_nonant_bounds, Called_solve_loop USER_SOLUTION False,
                   Hook post_iter0, SendBound (Some 8), Hook post_iter0_after_sync]) \<and>
   (\<exists>s'. main_iter script_env False True
       (script_spoke (script_opt base_options (Some ''Ext'') (post_everything # main_hooks)
          two_subproblems) [] [Some [5, -3]]) = Inr s' \<and>
      trace s' = [UpdateWs True, Hook miditer, Called_W_from_flat_list [5, -3],
                  Called_receive_nonant_bounds, Called_solve_loop PRIOR_SOLUTION False,
                  Hook enditer, SendBound (Some 14), Hook enditer_after_sync]) \<and>
   (\<exists>q'. main_iter script_env False True
       (script_spoke (script_opt base_options (Some ''Ext'') (post_everything # main_hooks)
          two_subproblems) [] [None]) = Inr q' \<and>
      trace q' = [UpdateWs False]) \<and>
   trace (snd (finalize script_env
       (script_spoke (script_opt base_options (Some ''Ext'') (post_everything # main_hooks)
          two_subproblems) [] []))) = [Hook post_everything] \<and>
   (\<exists>r'. main (script_env\<lparr>ext_hook := (\<lambda>h ob. ob\<lparr>PHIter := 7\<rparr>)\<rparr>) False (Suc (Suc 0))
            (script_spoke (script_opt base_options None [] two_subproblems) [False]
               [Some [5, -3]]) = Some (Inr r') \<and>
      main script_env False (Suc (Suc 0))
            (script_spoke (script_opt base_options None [] two_subproblems) [False]
               [Some [5, -3]]) = Some (Inr r') \<and>
      (\<forall>h. Hook h \<notin> set (trace r')))"
proof -
  let ?X = "script_spoke (script_opt base_options (Some ''Ext'') (post_everything # main_hooks)
          two_subproblems) [] []"
  let ?S = "script_spoke (script_opt base_options (Some ''Ext'') (post_everything # main_hooks)
          two_subproblems) [] [Some [5, -3]]"
  let ?Q = "script_spoke (script_opt base_options (Some ''Ext'') (post_everything # main_hooks)
          two_subproblems) [] [None]"
  let ?R = "script_spoke (script_opt base_options None [] two_subproblems) [False]
               [Some [5, -3]]"
  let ?w = "\<lparr>kills = [], updates = []\<rparr>"
  let ?g = "\<lambda>(h::hookname) (ob::(real \<times> real \<times> bool) lag_internals opt_state). ob\<lparr>PHIter := 7\<rparr>"
  have "\<exists>st'. main_iter0 script_env False ?X = Inr (True, st')"
    by (simp add: spoke_run_defs)
  then obtain st' where h1: "main_iter0 script_env False ?X = Inr (True, st')" by blast
  have u2: "update_Ws script_env (world ?S) (localWs ?S) = (True, [5, -3], ?w)"
    by (simp add: spoke_run_defs)
  have "\<exists>s'. main_iter script_env False True ?S = Inr s'"
    by (simp add: spoke_run_defs)
  then obtain s' where h2: "main_iter script_env False True ?S = Inr s'" by blast
  have u3: "update_Ws script_env (world ?Q) (localWs ?Q) = (False, [], ?w)"
    by (simp add: spoke_run_defs)
  have "\<exists>q'. main_iter script_env False True ?Q = Inr q'"
    by (simp add: spoke_run_defs)
  then obtain q' where h3: "main_iter script_env False True ?Q = Inr q'" by blast
  have n: "extensions (opt ?R) = None"
    by (simp add: spoke_run_defs)
  have "\<exists>r'. main script_env False (Suc (Suc 0)) ?R = Some (Inr r')"
    by (simp add: spoke_run_defs)
  then obtain r' where h5: "main script_env False (Suc (Suc 0)) ?R = Some (Inr r')" by blast
  note t = hooks_at_phase_boundaries[where E = script_env and ns = False and st = ?X
      and ext = True and st' = st' and s = ?S and ws = "[5, -3]" and ?w1.0 = ?w and ex = True
      and s' = s' and q = ?Q and ws' = "[]" and w1' = ?w and ex' = True and q' = q'
      and t = ?X and r = ?R and g = ?g and fuel = "Suc (Suc 0)"]
  from t h1 have c1: "trace st' = trace ?X @ [Called_PH_Prep, Called_reenable_W, Called_create_solvers]
        @ hk True pre_iter0
        @ [Called_receive_nonant_bounds, Called_solve_loop USER_SOLUTION False]
        @ hk True post_iter0 @ [SendBound (trivial_bound st')]
        @ hk True post_iter0_after_sync"
    by blast
  from h1 have v1: "trivial_bound st' = Some 8" by (auto simp: spoke_run_defs)
  from t u2 h2 obtain rep where c2: "trace s' = trace ?S @ [UpdateWs True] @ hk True miditer
          @ [Called_W_from_flat_list [5, -3], Called_receive_nonant_bounds,
             Called_solve_loop PRIOR_SOLUTION False]
          @ hk True enditer @ rep @ hk True enditer_after_sync"
    and rep: "rep = [] \<or> (\<exists>v. rep = [SendBound (Some v)])"
    by blast
  from h2 have v2: "reports (trace s') = [Some 14]" by (auto simp: spoke_run_defs)
  have e: "trace ?X = []" "trace ?S = []" "trace ?R = []"
    by (simp_all add: script_spoke_def)
  from c2 rep v2 e have rep': "rep = [SendBound (Some 14)]" by auto
  from t u3 h3 obtain evs where c3: "trace q' = trace ?Q @ evs" by blast
  from h3 have v3: "trace q' = [UpdateWs False]" by (auto simp: spoke_run_defs)
  from t have c4: "trace (snd (finalize script_env ?X)) =
      trace ?X @ hk (extensions (opt ?X) \<noteq> None \<and> post_everything \<in> set (extobject (opt ?X)))
                  post_everything"
    by blast
  have x: "extensions (opt ?X) \<noteq> None \<and> post_everything \<in> set (extobject (opt ?X))"
    by (simp add: spoke_run_defs)
  from t n h5 have c5: "main (script_env\<lparr>ext_hook := ?g\<rparr>) False (Suc (Suc 0)) ?R =
      main script_env False (Suc (Suc 0)) ?R"
    and c6: "\<exists>evs. trace r' = trace ?R @ evs \<and> (\<forall>h. Hook h \<notin> set evs)"
    by blast+
  show ?thesis
  proof (intro conjI)
    show "\<exists>st'. main_iter0 script_env False ?X = Inr (True, st') \<and>
      trace st' = [Called_PH_Prep, Called_reenable_W, Called_create_solvers, Hook pre_iter0,
                   Called_receive_nonant_bounds, Called_solve_loop USER_SOLUTION False,
                   Hook post_iter0, SendBound (Some 8), Hook post_iter0_after_sync]"
      using h1 c1 v1 e by (intro exI[of _ st']) (simp add: hk_def)
    show "\<exists>s'. main_iter script_env False True ?S = Inr s' \<and>
      trace s' = [UpdateWs True, Hook miditer, Called_W_from_flat_list [5, -3],
                  Called_receive_nonant_bounds, Called_solve_loop PRIOR_SOLUTION False,
                  Hook enditer, SendBound (Some 14), Hook enditer_after_sync]"
      using h2 c2 rep' e by (intro exI[of _ s']) (simp add: hk_def)
    show "\<exists>q'. main_iter script_env False True ?Q = Inr q' \<and> trace q' = [UpdateWs False]"
      using h3 v3 by (intro exI[of _ q']) simp
    show "trace (snd (finalize script_env ?X)) = [Hook post_everything]"
      using c4 x e by (simp add: hk_def)
    show "\<exists>r'. main (script_env\<lparr>ext_hook := ?g\<rparr>) False (Suc (Suc 0)) ?R = Some (Inr r') \<and>
      main script_env False (Suc (Suc 0)) ?R = Some (Inr r') \<and>
      (\<forall>h. Hook h \<notin> set (trace r'))"
      using h5 c5 c6 e by (intro exI[of _ r']) auto
  qed
qed

section \<open>Properties of the evaluator\<close>

subsection \<open>Lazy solver creation\<close>

lemma lazy_create_solvers_created [simp]:
  "subproblems_solvers_created (lazy_create_solvers E st)"
  by (simp add: lazy_create_solvers_def)

lemma lazy_create_solvers_idle:
  "subproblems_solvers_created st \<Longrightarrow> lazy_create_solvers E st = st"
  by (simp add: lazy_create_solvers_def)

lemma lazy_create_solvers_idem [simp]:
  "lazy_create_solvers E (lazy_create_solvers E st) = lazy_create_solvers E st"
  by (simp add: lazy_create_solvers_idle)

lemma lazy_create_solvers_once:
  "solvers_once st \<Longrightarrow> solvers_once (lazy_create_solvers E st)"
  by (simp add: solvers_once_def lazy_create_solvers_def)

text \<open>
  What an operation leaves of the flag and the counter: every operation that starts with
  \<open>_lazy_create_solvers\<close> leaves the flag set and the counter as that call left it.
\<close>

lemma solve_one_solvers:
  "subproblems_solvers_created (snd (solve_one E args cv src k st)) \<and>
   create_solvers_calls (snd (solve_one E args cv src k st)) =
     create_solvers_calls (lazy_create_solvers E st)"
  by (simp add: solve_one_def Let_def split: option.splits prod.splits sum.splits)

lemma solve_each_solvers:
  "subproblems_solvers_created st \<Longrightarrow>
     subproblems_solvers_created (snd (solve_each E args cv src ks t st)) \<and>
     create_solvers_calls (snd (solve_each E args cv src ks t st)) = create_solvers_calls st"
proof (induction ks arbitrary: t st)
  case Nil
  then show ?case by simp
next
  case (Cons k ks)
  obtain r st1 where s: "solve_one E args cv src k st = (r, st1)"
    by (cases "solve_one E args cv src k st")
  from solve_one_solvers[of E args cv src k st] s Cons.prems have
    c: "subproblems_solvers_created st1" "create_solvers_calls st1 = create_solvers_calls st"
    by (simp_all add: lazy_create_solvers_idle)
  show ?case
  proof (cases r)
    case (Inl e)
    with s c show ?thesis by simp
  next
    case (Inr t1)
    with s c Cons.IH[OF c(1), of "Some t1"] show ?thesis by simp
  qed
qed

lemma xe_solve_loop_snd:
  "snd (xe_solve_loop E so us dt gr di tee vb cv ws ns st) =
     snd (solve_each E
            \<lparr>so_solver_options = so, so_dtiming = dt, so_gripe = gr, so_tee = tee,
             so_verbose = vb, so_disable_pyomo_signal_handling = di,
             so_update_objective = True, so_warmstart = ws, so_need_solution = cv\<rparr>
            cv us
            (map fst (s_source us (sp (lazy_create_solvers E st)))) None
            (if cv then (lazy_create_solvers E st)\<lparr>objs_dict := Some Map.empty\<rparr>
             else lazy_create_solvers E st))"
  by (simp add: xe_solve_loop_def Let_def split: prod.splits sum.splits)

lemma xe_solve_loop_solvers:
  "subproblems_solvers_created (snd (xe_solve_loop E so us dt gr di tee vb cv ws ns st)) \<and>
   create_solvers_calls (snd (xe_solve_loop E so us dt gr di tee vb cv ws ns st)) =
     create_solvers_calls (lazy_create_solvers E st)"
proof -
  let ?st2 = "if cv then (lazy_create_solvers E st)\<lparr>objs_dict := Some Map.empty\<rparr>
              else lazy_create_solvers E st"
  have c: "subproblems_solvers_created ?st2" by simp
  have n: "create_solvers_calls ?st2 = create_solvers_calls (lazy_create_solvers E st)" by simp
  show ?thesis
    unfolding xe_solve_loop_snd using solve_each_solvers[OF c] n by simp
qed

lemma Eobjective_snd: "snd (Eobjective E vb fct st) = lazy_create_solvers E st"
  by (simp add: Eobjective_def Let_def split: option.splits sum.splits)

lemma evaluate_one_snd:
  "snd (evaluate_one E cache k st) =
     (case fix_nonants E cache (sp (lazy_create_solvers E st)) of
        (Some e, p1) \<Rightarrow> (lazy_create_solvers E st)\<lparr>sp := p1\<rparr>
      | (None, p1) \<Rightarrow>
          snd (solve_one E
                 \<lparr>so_solver_options = options_solver_options p1, so_dtiming = False,
                  so_gripe = True, so_tee = False,
                  so_verbose = xe_verbose (lazy_create_solvers E st),
                  so_disable_pyomo_signal_handling = False, so_update_objective = True,
                  so_warmstart = False, so_need_solution = True\<rparr>
                 True True k
                 (if objs_dict (lazy_create_solvers E st) = None
                  then (lazy_create_solvers E st)\<lparr>sp := p1, objs_dict := Some Map.empty\<rparr>
                  else (lazy_create_solvers E st)\<lparr>sp := p1\<rparr>)))"
  by (simp add: evaluate_one_def Let_def split: prod.splits sum.splits option.splits)

lemma evaluate_one_solvers:
  "subproblems_solvers_created (snd (evaluate_one E cache k st)) \<and>
   create_solvers_calls (snd (evaluate_one E cache k st)) =
     create_solvers_calls (lazy_create_solvers E st)"
proof -
  obtain eo p1 where f: "fix_nonants E cache (sp (lazy_create_solvers E st)) = (eo, p1)"
    by (cases "fix_nonants E cache (sp (lazy_create_solvers E st))")
  let ?st3 = "if objs_dict (lazy_create_solvers E st) = None
                  then (lazy_create_solvers E st)\<lparr>sp := p1, objs_dict := Some Map.empty\<rparr>
                  else (lazy_create_solvers E st)\<lparr>sp := p1\<rparr>"
  have c: "subproblems_solvers_created ?st3" by simp
  have n: "create_solvers_calls ?st3 = create_solvers_calls (lazy_create_solvers E st)" by simp
  from c have l: "lazy_create_solvers E ?st3 = ?st3" by (rule lazy_create_solvers_idle)
  show ?thesis
  proof (cases eo)
    case (Some e)
    with f show ?thesis by (simp add: evaluate_one_snd)
  next
    case None
    with f show ?thesis
      unfolding evaluate_one_snd using solve_one_solvers[of E _ True True k ?st3] l n
      by simp
  qed
qed

lemma evaluate_snd:
  "snd (evaluate E cache fct st) =
     (case fix_nonants E cache (sp (lazy_create_solvers E st)) of
        (Some e, p1) \<Rightarrow> (lazy_create_solvers E st)\<lparr>sp := p1\<rparr>
      | (None, p1) \<Rightarrow>
          snd (xe_solve_loop E (options_solver_options p1) True False True False False
                (xe_verbose (lazy_create_solvers E st)) True False False
                ((lazy_create_solvers E st)\<lparr>sp := p1\<rparr>)))"
proof -
  obtain eo p1 where f: "fix_nonants E cache (sp (lazy_create_solvers E st)) = (eo, p1)"
    by (cases "fix_nonants E cache (sp (lazy_create_solvers E st))")
  let ?st2 = "(lazy_create_solvers E st)\<lparr>sp := p1\<rparr>"
  obtain eo3 st3 where
    s: "xe_solve_loop E (options_solver_options p1) True False True False False
                (xe_verbose (lazy_create_solvers E st)) True False False ?st2 = (eo3, st3)"
    by (cases "xe_solve_loop E (options_solver_options p1) True False True False False
                (xe_verbose (lazy_create_solvers E st)) True False False ?st2")
  from xe_solve_loop_solvers[of E "options_solver_options p1" True False True False
      False "xe_verbose (lazy_create_solvers E st)" True False False ?st2] s
  have "subproblems_solvers_created st3" by simp
  then have l3: "lazy_create_solvers E st3 = st3" by (rule lazy_create_solvers_idle)
  show ?thesis
    using f s l3
    by (cases eo; cases eo3) (simp_all add: evaluate_def Let_def Eobjective_snd)
qed

lemma evaluate_solvers:
  "subproblems_solvers_created (snd (evaluate E cache fct st)) \<and>
   create_solvers_calls (snd (evaluate E cache fct st)) =
     create_solvers_calls (lazy_create_solvers E st)"
proof -
  obtain eo p1 where f: "fix_nonants E cache (sp (lazy_create_solvers E st)) = (eo, p1)"
    by (cases "fix_nonants E cache (sp (lazy_create_solvers E st))")
  let ?st2 = "(lazy_create_solvers E st)\<lparr>sp := p1\<rparr>"
  have c: "subproblems_solvers_created ?st2" by simp
  from c have l: "lazy_create_solvers E ?st2 = ?st2" by (rule lazy_create_solvers_idle)
  show ?thesis
    unfolding evaluate_snd
    using f l xe_solve_loop_solvers[of E "options_solver_options p1" True False True False
      False "xe_verbose (lazy_create_solvers E st)" True False False ?st2]
    by (cases eo) simp_all
qed

lemma fix_nonants_upto_stage_solvers:
  "subproblems_solvers_created (snd (fix_nonants_upto_stage E t cache st)) \<and>
   create_solvers_calls (snd (fix_nonants_upto_stage E t cache st)) =
     create_solvers_calls (lazy_create_solvers E st)"
  by (simp add: fix_nonants_upto_stage_def Let_def split: prod.splits)

lemma calculate_incumbent_snd:
  "snd (calculate_incumbent E fx vb st) =
     (case (if fx then fix_nonants_at_value E (sp (lazy_create_solvers E st))
            else (None, sp (lazy_create_solvers E st))) of
        (Some e, p1) \<Rightarrow> (lazy_create_solvers E st)\<lparr>sp := p1\<rparr>
      | (None, p1) \<Rightarrow>
          snd (xe_solve_loop E (sp_current_solver_options p1) False False False False False
                vb False False False ((lazy_create_solvers E st)\<lparr>sp := p1\<rparr>)))"
proof -
  let ?st1 = "lazy_create_solvers E st"
  obtain eo p1 where
    f: "(if fx then fix_nonants_at_value E (sp ?st1) else (None, sp ?st1)) = (eo, p1)"
    by (cases "if fx then fix_nonants_at_value E (sp ?st1) else (None, sp ?st1)")
  let ?st2 = "?st1\<lparr>sp := p1\<rparr>"
  obtain eo3 st3 where
    s: "xe_solve_loop E (sp_current_solver_options p1) False False False False False
                vb False False False ?st2 = (eo3, st3)"
    by (cases "xe_solve_loop E (sp_current_solver_options p1) False False False False False
                vb False False False ?st2")
  from xe_solve_loop_solvers[of E "sp_current_solver_options p1" False False False
      False False vb False False False ?st2] s
  have "subproblems_solvers_created st3" by simp
  then have l3: "lazy_create_solvers E st3 = st3" by (rule lazy_create_solvers_idle)
  obtain r st4 where e: "Eobjective E vb None st3 = (r, st4)"
    by (cases "Eobjective E vb None st3")
  from Eobjective_snd[of E vb None st3] e l3 have s4: "st4 = st3" by simp
  show ?thesis
    using f s e s4
    by (cases eo; cases eo3; cases r) (simp_all add: calculate_incumbent_def Let_def)
qed

lemma calculate_incumbent_solvers:
  "subproblems_solvers_created (snd (calculate_incumbent E fx vb st)) \<and>
   create_solvers_calls (snd (calculate_incumbent E fx vb st)) =
     create_solvers_calls (lazy_create_solvers E st)"
proof -
  let ?st1 = "lazy_create_solvers E st"
  obtain eo p1 where
    f: "(if fx then fix_nonants_at_value E (sp ?st1) else (None, sp ?st1)) = (eo, p1)"
    by (cases "if fx then fix_nonants_at_value E (sp ?st1) else (None, sp ?st1)")
  let ?st2 = "?st1\<lparr>sp := p1\<rparr>"
  have c: "subproblems_solvers_created ?st2" by simp
  from c have l: "lazy_create_solvers E ?st2 = ?st2" by (rule lazy_create_solvers_idle)
  show ?thesis
    unfolding calculate_incumbent_snd
    using f l xe_solve_loop_solvers[of E "sp_current_solver_options p1" False False False
      False False vb False False False ?st2]
    by (cases eo) simp_all
qed

lemma apply_op_solvers_once:
  "solvers_once st \<Longrightarrow> solvers_once (apply_op E x st)"
proof (cases x)
  case (Op_solve_one args cv src k)
  assume "solvers_once st"
  from lazy_create_solvers_once[OF this, of E] solve_one_solvers[of E args cv src k st]
  show ?thesis by (simp add: Op_solve_one solvers_once_def)
next
  case (Op_solve_loop so us dt gr di tee vb cv ws ns)
  assume "solvers_once st"
  from lazy_create_solvers_once[OF this, of E]
    xe_solve_loop_solvers[of E so us dt gr di tee vb cv ws ns st]
  show ?thesis by (simp add: Op_solve_loop solvers_once_def)
next
  case (Op_Eobjective vb fct)
  assume "solvers_once st"
  from lazy_create_solvers_once[OF this, of E] Eobjective_snd[of E vb fct st]
  show ?thesis by (simp add: Op_Eobjective solvers_once_def)
next
  case (Op_evaluate_one cache k)
  assume "solvers_once st"
  from lazy_create_solvers_once[OF this, of E] evaluate_one_solvers[of E cache k st]
  show ?thesis by (simp add: Op_evaluate_one solvers_once_def)
next
  case (Op_evaluate cache fct)
  assume "solvers_once st"
  from lazy_create_solvers_once[OF this, of E] evaluate_solvers[of E cache fct st]
  show ?thesis by (simp add: Op_evaluate solvers_once_def)
next
  case (Op_fix_nonants_upto_stage t cache)
  assume "solvers_once st"
  from lazy_create_solvers_once[OF this, of E] fix_nonants_upto_stage_solvers[of E t cache st]
  show ?thesis by (simp add: Op_fix_nonants_upto_stage solvers_once_def)
next
  case Op_fix_nonants_at_value
  assume "solvers_once st"
  then show ?thesis by (simp add: Op_fix_nonants_at_value solvers_once_def)
next
  case (Op_calculate_incumbent fx vb)
  assume "solvers_once st"
  from lazy_create_solvers_once[OF this, of E] calculate_incumbent_solvers[of E fx vb st]
  show ?thesis by (simp add: Op_calculate_incumbent solvers_once_def)
qed

lemma run_ops_solvers_once:
  "solvers_once st \<Longrightarrow> solvers_once (run_ops E ops st)"
  by (induction ops arbitrary: st) (simp_all add: apply_op_solvers_once)

lemma apply_op_calls_mono:
  "create_solvers_calls st \<le> create_solvers_calls (apply_op E x st)"
proof -
  have l: "create_solvers_calls st \<le> create_solvers_calls (lazy_create_solvers E st)"
    by (simp add: lazy_create_solvers_def)
  show ?thesis
  proof (cases x)
    case (Op_solve_one args cv src k)
    with l solve_one_solvers[of E args cv src k st] show ?thesis by simp
  next
    case (Op_solve_loop so us dt gr di tee vb cv ws ns)
    with l xe_solve_loop_solvers[of E so us dt gr di tee vb cv ws ns st] show ?thesis by simp
  next
    case (Op_Eobjective vb fct)
    with l Eobjective_snd[of E vb fct st] show ?thesis by simp
  next
    case (Op_evaluate_one cache k)
    with l evaluate_one_solvers[of E cache k st] show ?thesis by simp
  next
    case (Op_evaluate cache fct)
    with l evaluate_solvers[of E cache fct st] show ?thesis by simp
  next
    case (Op_fix_nonants_upto_stage t cache)
    with l fix_nonants_upto_stage_solvers[of E t cache st] show ?thesis by simp
  next
    case Op_fix_nonants_at_value
    then show ?thesis by simp
  next
    case (Op_calculate_incumbent fx vb)
    with l calculate_incumbent_solvers[of E fx vb st] show ?thesis by simp
  qed
qed

lemma apply_op_created:
  "subproblems_solvers_created st \<or> x \<noteq> Op_fix_nonants_at_value \<Longrightarrow>
     subproblems_solvers_created (apply_op E x st)"
proof (cases x)
  case (Op_solve_one args cv src k)
  with solve_one_solvers[of E args cv src k st] show ?thesis by simp
next
  case (Op_solve_loop so us dt gr di tee vb cv ws ns)
  with xe_solve_loop_solvers[of E so us dt gr di tee vb cv ws ns st] show ?thesis by simp
next
  case (Op_Eobjective vb fct)
  with Eobjective_snd[of E vb fct st] show ?thesis by simp
next
  case (Op_evaluate_one cache k)
  with evaluate_one_solvers[of E cache k st] show ?thesis by simp
next
  case (Op_evaluate cache fct)
  with evaluate_solvers[of E cache fct st] show ?thesis by simp
next
  case (Op_fix_nonants_upto_stage t cache)
  with fix_nonants_upto_stage_solvers[of E t cache st] show ?thesis by simp
next
  case Op_fix_nonants_at_value
  assume "subproblems_solvers_created st \<or> x \<noteq> Op_fix_nonants_at_value"
  with Op_fix_nonants_at_value show ?thesis by simp
next
  case (Op_calculate_incumbent fx vb)
  with calculate_incumbent_solvers[of E fx vb st] show ?thesis by simp
qed

lemma run_ops_created:
  "subproblems_solvers_created st \<Longrightarrow> subproblems_solvers_created (run_ops E ops st)"
  by (induction ops arbitrary: st) (simp_all add: apply_op_created)

lemma run_ops_creates:
  "x \<in> set ops \<Longrightarrow> x \<noteq> Op_fix_nonants_at_value \<Longrightarrow>
     subproblems_solvers_created (run_ops E ops st)"
proof (induction ops arbitrary: st)
  case Nil
  then show ?case by simp
next
  case (Cons y ys)
  show ?case
  proof (cases "x = y")
    case True
    with Cons.prems have "subproblems_solvers_created (apply_op E y st)"
      by (intro apply_op_created) simp
    then show ?thesis by (simp add: run_ops_created)
  next
    case False
    with Cons show ?thesis by simp
  qed
qed

lemma Xhat_Eval_init_once: "Xhat_Eval_init p = Inr st0 \<Longrightarrow> solvers_once st0"
  by (auto simp: Xhat_Eval_init_def solvers_once_def split: option.splits)

subsection \<open>The solve loop over the local scenarios\<close>

lemma map_fst_put_object [simp]: "map fst (put_object k s d) = map fst d"
  by (induction d) (auto simp: put_object_def)

lemma map_of_put_object_other:
  "k' \<noteq> k \<Longrightarrow> map_of (put_object k s d) k' = map_of d k'"
  by (induction d) (auto simp: put_object_def)

lemma put_object_as_map:
  assumes "distinct (map fst d)" and "map_of d k = Some s"
  shows "put_object k (f k s) d = map (\<lambda>(k', s'). if k' = k then (k', f k' s') else (k', s')) d"
proof -
  have "(k', s') \<in> set d \<Longrightarrow>
      (if k' = k then (k', f k s) else (k', s')) = (if k' = k then (k', f k' s') else (k', s'))"
    for k' s'
    using assms by (auto dest!: map_of_SomeD dest: eq_key_imp_eq_value)
  then show ?thesis
    unfolding put_object_def by (intro map_cong) auto
qed

lemma solve_one_scenario_Inr:
  assumes "solve_one E args True True k st = (Inr t, st')"
    and "subproblems_solvers_created st"
  shows "\<exists>s s1 v d. map_of (local_scenarios (sp st)) k = Some s \<and>
      super_solve_one E (args\<lparr>so_need_solution := True\<rparr>) k s = (Inr t, s1) \<and>
      saved_objective_value E k s1 = Inr v \<and> objs_dict st = Some d \<and>
      st' = st\<lparr>sp := (sp st)\<lparr>local_scenarios := put_object k s1 (local_scenarios (sp st))\<rparr>,
               objs_dict := Some (d(k \<mapsto> v))\<rparr>"
  using assms
  by (auto simp: solve_one_def Let_def lazy_create_solvers_idle s_source_def put_source_def
      split: option.splits prod.splits sum.splits)

text \<open>
  A solve loop over distinct names \<open>ks\<close> that returns has solved exactly the scenarios
  named in \<open>ks\<close>, each once, and has recorded the objective value of each.
\<close>

lemma solve_each_scenarios:
  assumes "solve_each E args True True ks t st = (Inr t', st')"
    and "subproblems_solvers_created st"
    and "distinct ks"
    and "distinct (map fst (local_scenarios (sp st)))"
  shows "local_scenarios (sp st') =
      map (\<lambda>(k, s). if k \<in> set ks
                     then (k, snd (super_solve_one E (args\<lparr>so_need_solution := True\<rparr>) k s))
                     else (k, s))
        (local_scenarios (sp st)) \<and>
    (objs_dict st = None \<longrightarrow> ks = []) \<and>
    (\<forall>d0. objs_dict st = Some d0 \<longrightarrow>
       (\<exists>d. objs_dict st' = Some d \<and> (\<forall>k. k \<notin> set ks \<longrightarrow> d k = d0 k) \<and>
          (\<forall>k \<in> set ks. \<exists>s v. map_of (local_scenarios (sp st)) k = Some s \<and>
              saved_objective_value E k
                (snd (super_solve_one E (args\<lparr>so_need_solution := True\<rparr>) k s)) = Inr v \<and>
              d k = Some v))) \<and>
    xe_verbose st' = xe_verbose st \<and> subproblems_solvers_created st'"
  using assms
proof (induction ks arbitrary: t st)
  case Nil
  then show ?case by (simp add: case_prod_unfold)
next
  case (Cons k ks)
  let ?A = "args\<lparr>so_need_solution := True\<rparr>"
  from Cons.prems(1) obtain t1 st1 where
    o: "solve_one E args True True k st = (Inr t1, st1)"
    and r: "solve_each E args True True ks (Some t1) st1 = (Inr t', st')"
    by (auto split: prod.splits sum.splits)
  from solve_one_scenario_Inr[OF o Cons.prems(2)] obtain s s1 v d0 where
    m: "map_of (local_scenarios (sp st)) k = Some s"
    and ss: "super_solve_one E ?A k s = (Inr t1, s1)"
    and sv: "saved_objective_value E k s1 = Inr v"
    and od: "objs_dict st = Some d0"
    and st1: "st1 = st\<lparr>sp := (sp st)\<lparr>local_scenarios := put_object k s1 (local_scenarios (sp st))\<rparr>,
               objs_dict := Some (d0(k \<mapsto> v))\<rparr>"
    by blast
  from ss have s1: "s1 = snd (super_solve_one E ?A k s)" by simp
  from st1 Cons.prems(2) have c1: "subproblems_solvers_created st1" by simp
  from Cons.prems(3) have dk: "distinct ks" and kn: "k \<notin> set ks" by simp_all
  from st1 Cons.prems(4) have d1: "distinct (map fst (local_scenarios (sp st1)))" by simp
  from st1 have l1: "local_scenarios (sp st1) = put_object k s1 (local_scenarios (sp st))"
    by simp
  from put_object_as_map[OF Cons.prems(4) m, of "\<lambda>k s. snd (super_solve_one E ?A k s)"] s1 l1
  have l1': "local_scenarios (sp st1) =
      map (\<lambda>(k', s'). if k' = k then (k', snd (super_solve_one E ?A k' s')) else (k', s'))
        (local_scenarios (sp st))"
    by simp
  from st1 have od1: "objs_dict st1 = Some (d0(k \<mapsto> v))" by simp
  note IH = Cons.IH[OF r c1 dk d1]
  from IH have
    a: "local_scenarios (sp st') =
      map (\<lambda>(k, s). if k \<in> set ks then (k, snd (super_solve_one E ?A k s)) else (k, s))
        (local_scenarios (sp st1))"
    and v': "xe_verbose st' = xe_verbose st1" and c': "subproblems_solvers_created st'"
    by simp_all
  from IH od1 obtain d where
    b: "objs_dict st' = Some d" "\<forall>k'. k' \<notin> set ks \<longrightarrow> d k' = (d0(k \<mapsto> v)) k'"
    "\<forall>k' \<in> set ks. \<exists>s v. map_of (local_scenarios (sp st1)) k' = Some s \<and>
        saved_objective_value E k' (snd (super_solve_one E ?A k' s)) = Inr v \<and> d k' = Some v"
    by blast
  have 1: "local_scenarios (sp st') =
      map (\<lambda>(k', s). if k' \<in> set (k # ks) then (k', snd (super_solve_one E ?A k' s))
                      else (k', s))
        (local_scenarios (sp st))"
    unfolding a l1' using kn by (auto simp: case_prod_unfold)
  have 2: "\<exists>d. objs_dict st' = Some d \<and> (\<forall>k'. k' \<notin> set (k # ks) \<longrightarrow> d k' = d0 k') \<and>
      (\<forall>k' \<in> set (k # ks). \<exists>s v. map_of (local_scenarios (sp st)) k' = Some s \<and>
          saved_objective_value E k' (snd (super_solve_one E ?A k' s)) = Inr v \<and>
          d k' = Some v)"
  proof (intro exI[of _ d] conjI allI impI ballI)
    show "objs_dict st' = Some d" by (rule b(1))
  next
    fix k' assume "k' \<notin> set (k # ks)"
    with b(2) show "d k' = d0 k'" by simp
  next
    fix k' assume k': "k' \<in> set (k # ks)"
    show "\<exists>s v. map_of (local_scenarios (sp st)) k' = Some s \<and>
          saved_objective_value E k' (snd (super_solve_one E ?A k' s)) = Inr v \<and>
          d k' = Some v"
    proof (cases "k' = k")
      case True
      with b(2) kn have "d k' = Some v" by simp
      with True m sv s1 show ?thesis by auto
    next
      case False
      with k' have "k' \<in> set ks" by simp
      with b(3) obtain s' v' where
        x: "map_of (local_scenarios (sp st1)) k' = Some s'"
        "saved_objective_value E k' (snd (super_solve_one E ?A k' s')) = Inr v'"
        "d k' = Some v'" by blast
      from x(1) l1 False have "map_of (local_scenarios (sp st)) k' = Some s'"
        by (simp add: map_of_put_object_other)
      with x show ?thesis by blast
    qed
  qed
  from 1 2 od v' c' st1 show ?case by simp
qed

lemma local_Eobjs_all:
  "\<forall>(k, s) \<in> set scens. d k \<noteq> None \<Longrightarrow>
     local_Eobjs f d scens = Inr (map (\<lambda>(k, s). mpisppy_probability s * f (the (d k))) scens)"
  by (induction scens) auto

lemma local_Eobjs_Inr:
  "local_Eobjs f d scens = Inr xs \<Longrightarrow>
     xs = map (\<lambda>(k, s). mpisppy_probability s * f (the (d k))) scens \<and>
     (\<forall>(k, s) \<in> set scens. d k \<noteq> None)"
  by (induction scens arbitrary: xs) (auto split: option.splits sum.splits)

lemma lazy_create_solvers_spec_xenv [simp]:
  "lazy_create_solvers (spec_xenv E) st = lazy_create_solvers E st"
  by (simp add: lazy_create_solvers_def spec_xenv_def)

lemma solve_one_spec_xenv [simp]:
  "solve_one (spec_xenv E) args cv src k st = solve_one E args cv src k st"
  by (simp add: solve_one_def spec_xenv_def lazy_create_solvers_def Let_def
      split: option.splits prod.splits sum.splits)

lemma solve_each_spec_xenv [simp]:
  "solve_each (spec_xenv E) args cv src ks t st = solve_each E args cv src ks t st"
  by (induction ks arbitrary: t st) (simp_all split: prod.splits sum.splits)

lemma xe_solve_loop_spec_xenv [simp]:
  "xe_solve_loop (spec_xenv E) so us dt gr di tee vb cv ws ns st =
     xe_solve_loop E so us dt gr di tee vb cv ws ns st"
  by (simp add: xe_solve_loop_def Let_def)

lemma solve_one_keys:
  "subproblems_solvers_created st \<Longrightarrow>
     map fst (local_scenarios (sp (snd (solve_one E args cv src k st)))) =
       map fst (local_scenarios (sp st)) \<and>
     map fst (bundles (sp (snd (solve_one E args cv src k st)))) = map fst (bundles (sp st))"
  by (simp add: solve_one_def Let_def lazy_create_solvers_idle put_source_def
      split: option.splits prod.splits sum.splits)

lemma solve_each_keys:
  "subproblems_solvers_created st \<Longrightarrow>
     map fst (local_scenarios (sp (snd (solve_each E args cv src ks t st)))) =
       map fst (local_scenarios (sp st))"
proof (induction ks arbitrary: t st)
  case Nil
  then show ?case by simp
next
  case (Cons k ks)
  obtain r st1 where s: "solve_one E args cv src k st = (r, st1)"
    by (cases "solve_one E args cv src k st")
  from solve_one_solvers[of E args cv src k st] s have c: "subproblems_solvers_created st1"
    by simp
  from solve_one_keys[OF Cons.prems, of E args cv src k] s have
    k: "map fst (local_scenarios (sp st1)) = map fst (local_scenarios (sp st))" by simp
  show ?case
  proof (cases r)
    case (Inl e)
    with s k show ?thesis by simp
  next
    case (Inr t1)
    with s k Cons.IH[OF c, of "Some t1"] show ?thesis by simp
  qed
qed

text \<open>
  What \<open>evaluate\<close> does when it returns, for any collaborators: the cache is fixed, the
  local scenarios are solved once each, their objective values are recorded, and
  \<open>Eobjective\<close> is taken on that state.
\<close>

lemma evaluate_Inr:
  assumes "evaluate E cache fct st = (Inr v, st')"
    and "distinct (map fst (local_scenarios (sp st')))"
  shows "\<exists>p1 d. fix_nonants E cache (sp (lazy_create_solvers E st)) = (None, p1) \<and>
     local_scenarios (sp st') =
       map (\<lambda>(k, s). (k, snd (super_solve_one E
              \<lparr>so_solver_options = options_solver_options p1, so_dtiming = False,
               so_gripe = True, so_tee = False, so_verbose = xe_verbose st,
               so_disable_pyomo_signal_handling = False, so_update_objective = True,
               so_warmstart = False, so_need_solution = True\<rparr> k s)))
         (local_scenarios p1) \<and>
     objs_dict st' = Some d \<and>
     (\<forall>(k, s) \<in> set (local_scenarios (sp st')). saved_objective_value E k s = Inr (the (d k))) \<and>
     Eobjective E (xe_verbose st) fct st' = (Inr v, st')"
proof -
  let ?L = "lazy_create_solvers E st"
  obtain eo p1 where f: "fix_nonants E cache (sp ?L) = (eo, p1)"
    by (cases "fix_nonants E cache (sp ?L)")
  from assms(1) f have eo: "eo = None"
    by (cases eo) (simp_all add: evaluate_def Let_def)
  let ?st2 = "?L\<lparr>sp := p1\<rparr>"
  have vb: "xe_verbose ?L = xe_verbose st" by (simp add: lazy_create_solvers_def)
  obtain eo3 st3 where
    s: "xe_solve_loop E (options_solver_options p1) True False True False False
          (xe_verbose st) True False False ?st2 = (eo3, st3)"
    by (cases "xe_solve_loop E (options_solver_options p1) True False True False False
          (xe_verbose st) True False False ?st2")
  from assms(1) f eo s vb have eo3: "eo3 = None"
    by (cases eo3) (simp_all add: evaluate_def Let_def)
  let ?A = "\<lparr>so_solver_options = options_solver_options p1, so_dtiming = False,
               so_gripe = True, so_tee = False, so_verbose = xe_verbose st,
               so_disable_pyomo_signal_handling = False, so_update_objective = True,
               so_warmstart = False, so_need_solution = True\<rparr>"
  let ?st2' = "?st2\<lparr>objs_dict := Some Map.empty\<rparr>"
  have l2: "lazy_create_solvers E ?st2 = ?st2" by (simp add: lazy_create_solvers_idle)
  from s eo3 l2 obtain t where
    e: "solve_each E ?A True True (map fst (local_scenarios p1)) None ?st2' = (Inr t, st3)"
    by (auto simp: xe_solve_loop_def Let_def s_source_def split: prod.splits sum.splits if_splits)
  have c2: "subproblems_solvers_created ?st2'" by simp
  from solve_each_solvers[OF c2, of E ?A True True "map fst (local_scenarios p1)" None] e
  have c3: "subproblems_solvers_created st3" by simp
  then have l3: "lazy_create_solvers E st3 = st3" by (rule lazy_create_solvers_idle)
  from assms(1) f eo s eo3 vb have ev: "Eobjective E (xe_verbose st3) fct st3 = (Inr v, st')"
    by (simp add: evaluate_def Let_def)
  from Eobjective_snd[of E "xe_verbose st3" fct st3] ev l3 have st': "st' = st3" by simp
  from solve_each_keys[OF c2, of E ?A True True "map fst (local_scenarios p1)" None] e
  have keys: "map fst (local_scenarios (sp st3)) = map fst (local_scenarios p1)" by simp
  with assms(2) st' have dist: "distinct (map fst (local_scenarios p1))" by simp
  then have dist2: "distinct (map fst (local_scenarios (sp ?st2')))" by simp
  note se = solve_each_scenarios[OF e c2 dist dist2]
  from se have
    ls: "local_scenarios (sp st3) =
      map (\<lambda>(k, s). if k \<in> set (map fst (local_scenarios p1))
                     then (k, snd (super_solve_one E (?A\<lparr>so_need_solution := True\<rparr>) k s))
                     else (k, s))
        (local_scenarios p1)"
    and v3: "xe_verbose st3 = xe_verbose st"
    by (simp_all add: lazy_create_solvers_def)
  have ls': "local_scenarios (sp st3) =
      map (\<lambda>(k, s). (k, snd (super_solve_one E ?A k s))) (local_scenarios p1)"
    unfolding ls by (intro map_cong) (auto simp: rev_image_eqI)
  from se obtain d where
    d: "objs_dict st3 = Some d"
    "\<forall>k \<in> set (map fst (local_scenarios p1)).
        \<exists>s v. map_of (local_scenarios p1) k = Some s \<and>
          saved_objective_value E k (snd (super_solve_one E ?A k s)) = Inr v \<and> d k = Some v"
    by auto
  have vals: "\<forall>(k, s) \<in> set (local_scenarios (sp st3)).
      saved_objective_value E k s = Inr (the (d k))"
  proof (intro ballI, clarify)
    fix k s assume "(k, s) \<in> set (local_scenarios (sp st3))"
    with ls' obtain s0 where
      s0: "(k, s0) \<in> set (local_scenarios p1)" "s = snd (super_solve_one E ?A k s0)"
      by auto
    from s0(1) dist have m: "map_of (local_scenarios p1) k = Some s0" by simp
    from s0(1) have "k \<in> set (map fst (local_scenarios p1))" by (simp add: rev_image_eqI)
    with d(2) m s0(2) show "saved_objective_value E k s = Inr (the (d k))" by auto
  qed
  from f eo ls' d(1) vals ev st' v3 show ?thesis by auto
qed

lemma spec_xenv_sel [simp]:
  "fix_nonants (spec_xenv E) = spec_fix_nonants"
  "super_solve_one (spec_xenv E) = super_solve_one E"
  "saved_objective_value (spec_xenv E) = saved_objective_value E"
  "super_Eobjective (spec_xenv E) = spec_super_Eobjective E"
  "Allreduce_SUM (spec_xenv E) = Allreduce_SUM E"
  by (simp_all add: spec_xenv_def)

lemma solve_each_succeeds:
  assumes "subproblems_solvers_created st"
    and "objs_dict st \<noteq> None"
    and "distinct ks"
    and "\<forall>k \<in> set ks. \<exists>s t1 s1 x. map_of (local_scenarios (sp st)) k = Some s \<and>
           super_solve_one E (args\<lparr>so_need_solution := True\<rparr>) k s = (Inr t1, s1) \<and>
           saved_objective_value E k s1 = Inr x"
  shows "\<exists>t' st'. solve_each E args True True ks t st = (Inr t', st')"
  using assms
proof (induction ks arbitrary: t st)
  case Nil
  then show ?case by simp
next
  case (Cons k ks)
  let ?A = "args\<lparr>so_need_solution := True\<rparr>"
  from Cons.prems(4) obtain s t1 s1 x where
    m: "map_of (local_scenarios (sp st)) k = Some s"
    and ss: "super_solve_one E ?A k s = (Inr t1, s1)"
    and sv: "saved_objective_value E k s1 = Inr x"
    by auto
  from Cons.prems(2) obtain d0 where od: "objs_dict st = Some d0" by auto
  let ?st1 = "st\<lparr>sp := (sp st)\<lparr>local_scenarios := put_object k s1 (local_scenarios (sp st))\<rparr>,
               objs_dict := Some (d0(k \<mapsto> x))\<rparr>"
  from m ss sv od Cons.prems(1) have o: "solve_one E args True True k st = (Inr t1, ?st1)"
    by (simp add: solve_one_def Let_def lazy_create_solvers_idle s_source_def put_source_def)
  from Cons.prems(3) have dk: "distinct ks" and kn: "k \<notin> set ks" by simp_all
  have c1: "subproblems_solvers_created ?st1" using Cons.prems(1) by simp
  have o1: "objs_dict ?st1 \<noteq> None" by simp
  have r: "\<forall>k' \<in> set ks. \<exists>s t1 s1 x. map_of (local_scenarios (sp ?st1)) k' = Some s \<and>
           super_solve_one E ?A k' s = (Inr t1, s1) \<and> saved_objective_value E k' s1 = Inr x"
  proof
    fix k' assume k': "k' \<in> set ks"
    with kn have "k' \<noteq> k" by auto
    then have "map_of (local_scenarios (sp ?st1)) k' = map_of (local_scenarios (sp st)) k'"
      by (simp add: map_of_put_object_other)
    with Cons.prems(4) k' show "\<exists>s t1 s1 x. map_of (local_scenarios (sp ?st1)) k' = Some s \<and>
           super_solve_one E ?A k' s = (Inr t1, s1) \<and> saved_objective_value E k' s1 = Inr x"
      by simp
  qed
  from Cons.IH[OF c1 o1 dk r, of "Some t1"] o show ?case by simp
qed

lemma evaluate_returns:
  assumes f: "fix_nonants E cache (sp (lazy_create_solvers E st)) = (None, q)"
    and dist: "distinct (map fst (local_scenarios q))"
    and ok: "\<forall>(k, s) \<in> set (local_scenarios q). \<exists>t1 s1 x.
        super_solve_one E
          \<lparr>so_solver_options = options_solver_options q, so_dtiming = False,
           so_gripe = True, so_tee = False, so_verbose = xe_verbose st,
           so_disable_pyomo_signal_handling = False, so_update_objective = True,
           so_warmstart = False, so_need_solution = True\<rparr> k s = (Inr t1, s1) \<and>
        saved_objective_value E k s1 = Inr x"
  shows "\<exists>v st'. evaluate E cache fct st = (Inr v, st')"
proof -
  let ?L = "lazy_create_solvers E st"
  let ?A = "\<lparr>so_solver_options = options_solver_options q, so_dtiming = False,
           so_gripe = True, so_tee = False, so_verbose = xe_verbose st,
           so_disable_pyomo_signal_handling = False, so_update_objective = True,
           so_warmstart = False, so_need_solution = True\<rparr>"
  let ?st2 = "?L\<lparr>sp := q\<rparr>"
  let ?st2' = "?st2\<lparr>objs_dict := Some Map.empty\<rparr>"
  let ?ks = "map fst (local_scenarios q)"
  have vb: "xe_verbose ?L = xe_verbose st" by (simp add: lazy_create_solvers_def)
  have c2: "subproblems_solvers_created ?st2'" by simp
  have o2: "objs_dict ?st2' \<noteq> None" by simp
  have pre: "\<forall>k \<in> set ?ks. \<exists>s t1 s1 x. map_of (local_scenarios (sp ?st2')) k = Some s \<and>
           super_solve_one E (?A\<lparr>so_need_solution := True\<rparr>) k s = (Inr t1, s1) \<and>
           saved_objective_value E k s1 = Inr x"
  proof -
    have "\<exists>s t1 s1 x. map_of (local_scenarios (sp ?st2')) k = Some s \<and>
           super_solve_one E (?A\<lparr>so_need_solution := True\<rparr>) k s = (Inr t1, s1) \<and>
           saved_objective_value E k s1 = Inr x" if "k \<in> set ?ks" for k
    proof -
      from that obtain s where s: "(k, s) \<in> set (local_scenarios q)" by auto
      with dist have "map_of (local_scenarios q) k = Some s" by simp
      with ok s show ?thesis by auto
    qed
    then show ?thesis by blast
  qed
  from solve_each_succeeds[OF c2 o2 dist pre, of None] obtain t st3 where
    e: "solve_each E ?A True True ?ks None ?st2' = (Inr t, st3)" by blast
  have l2: "lazy_create_solvers E ?st2 = ?st2" by (simp add: lazy_create_solvers_idle)
  from e l2 have s: "xe_solve_loop E (options_solver_options q) True False True False False
          (xe_verbose st) True False False ?st2 = (None, st3)"
    by (simp add: xe_solve_loop_def Let_def s_source_def)
  from solve_each_solvers[OF c2, of E ?A True True ?ks None] e
  have c3: "subproblems_solvers_created st3" by simp
  then have l3: "lazy_create_solvers E st3 = st3" by (rule lazy_create_solvers_idle)
  have dist2: "distinct (map fst (local_scenarios (sp ?st2')))" using dist by simp
  note se = solve_each_scenarios[OF e c2 dist dist2]
  from se obtain d where
    d: "objs_dict st3 = Some d"
    "\<forall>k \<in> set ?ks. \<exists>s v. map_of (local_scenarios q) k = Some s \<and>
          saved_objective_value E k (snd (super_solve_one E ?A k s)) = Inr v \<and> d k = Some v"
    by auto
  from solve_each_keys[OF c2, of E ?A True True ?ks None] e
  have keys: "map fst (local_scenarios (sp st3)) = ?ks" by simp
  have all: "\<forall>(k, s) \<in> set (local_scenarios (sp st3)). d k \<noteq> None"
  proof -
    have "d k \<noteq> None" if "(k, s) \<in> set (local_scenarios (sp st3))" for k s
    proof -
      from that have "k \<in> set (map fst (local_scenarios (sp st3)))"
        by (simp add: rev_image_eqI)
      with keys d(2) show ?thesis by auto
    qed
    then show ?thesis by auto
  qed
  have "\<exists>v. Eobjective E (xe_verbose st3) fct st3 = (Inr v, st3)"
  proof (cases fct)
    case None
    with l3 show ?thesis by (simp add: Eobjective_def)
  next
    case (Some g)
    with l3 d(1) local_Eobjs_all[OF all, of g] show ?thesis by (simp add: Eobjective_def)
  qed
  then obtain v where "Eobjective E (xe_verbose st3) fct st3 = (Inr v, st3)" by blast
  with f s vb have "evaluate E cache fct st = (Inr v, st3)"
    by (simp add: evaluate_def Let_def)
  then show ?thesis by blast
qed

subsection \<open>The claims about the evaluator\<close>

lemmas xhat_run_defs =
  Xhat_Eval_init_def lazy_create_solvers_def solve_one_def xe_solve_loop_def Eobjective_def
  evaluate_one_def evaluate_def fix_nonants_upto_stage_def fix_nonants_at_value_def
  calculate_incumbent_def s_source_def put_source_def put_object_def local_subproblems_def
  options_solver_options_def rounding_bias_def spec_fix_nonants_def spec_fix_node_def
  spec_super_Eobjective_def spec_xenv_def objective_of_def unit_cost_objective_def
  small_xenv_def small_scenario_def small_spopt_def small_xhat_def small_scenarios_def
  infeasible_scenarios_def broken_scenarios_def

text \<open>
  C9. Solver creation is lazy and happens once. The first call of
  \<open>_lazy_create_solvers\<close> calls \<open>_create_solvers(presolve=False)\<close> and sets the flag,
  every later call returns the object as it is. From a freshly constructed object,
  whatever public operations follow and whether they return or raise, the object has
  called \<open>_create_solvers\<close> at most once: not at all while the flag is unset, once
  when it is set; and any operation other than \<open>_fix_nonants_at_value\<close> (which does not
  ask for the solvers) leaves the flag set.
\<close>

theorem solvers_created_at_most_once:
  "(Xhat_Eval_init p = Inr st0 \<longrightarrow>
      create_solvers_calls (run_ops E ops st0) \<le> 1 \<and>
      subproblems_solvers_created (run_ops E ops st0) =
        (create_solvers_calls (run_ops E ops st0) = 1) \<and>
      (x \<in> set ops \<and> x \<noteq> Op_fix_nonants_at_value \<longrightarrow>
         subproblems_solvers_created (run_ops E ops st0) \<and>
         create_solvers_calls (run_ops E ops st0) = 1)) \<and>
   (\<not> subproblems_solvers_created st \<longrightarrow>
      lazy_create_solvers E st =
        st\<lparr>sp := super_create_solvers E False (sp st),
           create_solvers_calls := Suc (create_solvers_calls st),
           subproblems_solvers_created := True\<rparr>) \<and>
   (subproblems_solvers_created st \<longrightarrow> lazy_create_solvers E st = st) \<and>
   lazy_create_solvers E (lazy_create_solvers E st) = lazy_create_solvers E st"
proof (intro conjI impI)
  assume i: "Xhat_Eval_init p = Inr st0"
  from run_ops_solvers_once[OF Xhat_Eval_init_once[OF i], of E ops]
  have o: "solvers_once (run_ops E ops st0)" .
  from o show "create_solvers_calls (run_ops E ops st0) \<le> 1"
    by (simp add: solvers_once_def split: if_splits)
  from o show "subproblems_solvers_created (run_ops E ops st0) =
        (create_solvers_calls (run_ops E ops st0) = 1)"
    by (simp add: solvers_once_def split: if_splits)
  assume "x \<in> set ops \<and> x \<noteq> Op_fix_nonants_at_value"
  then have c: "subproblems_solvers_created (run_ops E ops st0)"
    using run_ops_creates[of x ops E st0] by blast
  then show "subproblems_solvers_created (run_ops E ops st0)" .
  from o c show "create_solvers_calls (run_ops E ops st0) = 1"
    by (simp add: solvers_once_def)
qed (simp_all add: lazy_create_solvers_def)

theorem solvers_created_at_most_once_witness:
  "Xhat_Eval_init (small_spopt (small_scenarios (Some 1))) =
     Inr (small_xhat (small_scenarios (Some 1))) \<and>
   subproblems_solvers_created
     (run_ops small_xenv
        [Op_fix_nonants_at_value, Op_evaluate [''ROOT'' \<mapsto> Some [3]] None,
         Op_calculate_incumbent True PNone, Op_Eobjective PNone (Some (\<lambda>v. v * v))]
        (small_xhat (small_scenarios (Some 1)))) \<and>
   create_solvers_calls
     (run_ops small_xenv
        [Op_fix_nonants_at_value, Op_evaluate [''ROOT'' \<mapsto> Some [3]] None,
         Op_calculate_incumbent True PNone, Op_Eobjective PNone (Some (\<lambda>v. v * v))]
        (small_xhat (small_scenarios (Some 1)))) = 1 \<and>
   \<not> subproblems_solvers_created (small_xhat (small_scenarios (Some 1))) \<and>
   create_solvers_calls
     (lazy_create_solvers small_xenv (small_xhat (small_scenarios (Some 1)))) = 1 \<and>
   subproblems_solvers_created
     (lazy_create_solvers small_xenv (small_xhat (small_scenarios (Some 1)))) \<and>
   lazy_create_solvers small_xenv
     (lazy_create_solvers small_xenv (small_xhat (small_scenarios (Some 1)))) =
     lazy_create_solvers small_xenv (small_xhat (small_scenarios (Some 1)))"
proof -
  let ?S = "small_scenarios (Some 1)"
  let ?x = "Op_evaluate [''ROOT'' \<mapsto> Some [3]] None"
  let ?ops = "[Op_fix_nonants_at_value, ?x,
         Op_calculate_incumbent True PNone, Op_Eobjective PNone (Some (\<lambda>v. v * v))]"
  let ?L = "lazy_create_solvers small_xenv (small_xhat ?S)"
  have i: "Xhat_Eval_init (small_spopt ?S) = Inr (small_xhat ?S)"
    by (simp add: Xhat_Eval_init_def small_spopt_def small_xhat_def)
  have x: "?x \<in> set ?ops \<and> ?x \<noteq> Op_fix_nonants_at_value" by simp
  have n: "\<not> subproblems_solvers_created (small_xhat ?S)"
    by (simp add: small_xhat_def)
  note t1 = solvers_created_at_most_once[of "small_spopt ?S" "small_xhat ?S" small_xenv ?ops ?x
      "small_xhat ?S"]
  note t2 = solvers_created_at_most_once[of "small_spopt ?S" "small_xhat ?S" small_xenv ?ops ?x
      ?L]
  from t1 i x have r: "subproblems_solvers_created (run_ops small_xenv ?ops (small_xhat ?S))"
    "create_solvers_calls (run_ops small_xenv ?ops (small_xhat ?S)) = 1"
    by blast+
  from t1 n have l: "?L = (small_xhat ?S)\<lparr>sp := super_create_solvers small_xenv False
          (sp (small_xhat ?S)),
        create_solvers_calls := Suc (create_solvers_calls (small_xhat ?S)),
        subproblems_solvers_created := True\<rparr>"
    by blast
  from l have c: "create_solvers_calls ?L = 1" "subproblems_solvers_created ?L"
    by (simp_all add: small_xhat_def)
  from t2 c(2) have s: "lazy_create_solvers small_xenv ?L = ?L" by blast
  from i r n c s show ?thesis by (intro conjI)
qed

text \<open>
  C10. \<open>calculate_incumbent\<close> returns \<open>None\<close> exactly when the infeasibility
  probability after the solves is not zero, and the expected objective \<open>Eobjective()\<close>
  otherwise. It raises only what fixing the variables or a solve raises: when both go
  through, infeasibility comes back as the value \<open>None\<close>.
\<close>

theorem incumbent_None_iff_infeasible:
  "(calculate_incumbent E fx vb st = (Inr r, st') \<longrightarrow>
      (r = None) = (infeas_prob E (sp st') \<noteq> 0) \<and>
      (infeas_prob E (sp st') = 0 \<longrightarrow>
         r = Some (super_Eobjective E vb (sp st')) \<and>
         Eobjective E vb None st' = (Inr (super_Eobjective E vb (sp st')), st'))) \<and>
   ((if fx then fix_nonants_at_value E (sp (lazy_create_solvers E st))
     else (None, sp (lazy_create_solvers E st))) = (None, p1) \<and>
    xe_solve_loop E (sp_current_solver_options p1) False False False False False vb
       False False False ((lazy_create_solvers E st)\<lparr>sp := p1\<rparr>) = (None, st3) \<longrightarrow>
      calculate_incumbent E fx vb st =
        (Inr (if infeas_prob E (sp st3) \<noteq> 0 then None
              else Some (super_Eobjective E vb (sp st3))), st3))"
proof -
  let ?st1 = "lazy_create_solvers E st"
  have solved: "calculate_incumbent E fx vb st =
        (Inr (if infeas_prob E (sp s3) \<noteq> 0 then None
              else Some (super_Eobjective E vb (sp s3))), s3) \<and>
        Eobjective E vb None s3 = (Inr (super_Eobjective E vb (sp s3)), s3)"
    if f: "(if fx then fix_nonants_at_value E (sp ?st1) else (None, sp ?st1)) = (None, q)"
      and s: "xe_solve_loop E (sp_current_solver_options q) False False False False False vb
       False False False (?st1\<lparr>sp := q\<rparr>) = (None, s3)"
    for q s3
  proof -
    from xe_solve_loop_solvers[of E "sp_current_solver_options q" False False False
      False False vb False False False "?st1\<lparr>sp := q\<rparr>"] s
    have "subproblems_solvers_created s3" by simp
    then have l3: "lazy_create_solvers E s3 = s3" by (rule lazy_create_solvers_idle)
    then have e: "Eobjective E vb None s3 = (Inr (super_Eobjective E vb (sp s3)), s3)"
      by (simp add: Eobjective_def)
    from f s e show ?thesis
      by (simp add: calculate_incumbent_def Let_def)
  qed
  show ?thesis
  proof (intro conjI impI)
    assume c: "calculate_incumbent E fx vb st = (Inr r, st')"
    obtain eo q where
      f: "(if fx then fix_nonants_at_value E (sp ?st1) else (None, sp ?st1)) = (eo, q)"
      by (cases "if fx then fix_nonants_at_value E (sp ?st1) else (None, sp ?st1)")
    obtain eo3 s3 where
      s: "xe_solve_loop E (sp_current_solver_options q) False False False False False vb
       False False False (?st1\<lparr>sp := q\<rparr>) = (eo3, s3)"
      by (cases "xe_solve_loop E (sp_current_solver_options q) False False False False False vb
       False False False (?st1\<lparr>sp := q\<rparr>)")
    from c f have eo: "eo = None"
      by (cases eo) (simp_all add: calculate_incumbent_def Let_def)
    from c f s eo have eo3: "eo3 = None"
      by (cases eo3) (simp_all add: calculate_incumbent_def Let_def)
    from solved[OF f[unfolded eo] s[unfolded eo3]] c have
      r: "r = (if infeas_prob E (sp s3) \<noteq> 0 then None
              else Some (super_Eobjective E vb (sp s3)))" and st': "st' = s3"
      and e: "Eobjective E vb None s3 = (Inr (super_Eobjective E vb (sp s3)), s3)"
      by simp_all
    from r st' show "(r = None) = (infeas_prob E (sp st') \<noteq> 0)" by simp
    assume "infeas_prob E (sp st') = 0"
    with r st' show "r = Some (super_Eobjective E vb (sp st'))" by simp
    from e st' show "Eobjective E vb None st' = (Inr (super_Eobjective E vb (sp st')), st')"
      by simp
  next
    assume "(if fx then fix_nonants_at_value E (sp ?st1) else (None, sp ?st1)) = (None, p1) \<and>
      xe_solve_loop E (sp_current_solver_options p1) False False False False False vb
       False False False (?st1\<lparr>sp := p1\<rparr>) = (None, st3)"
    then show "calculate_incumbent E fx vb st =
        (Inr (if infeas_prob E (sp st3) \<noteq> 0 then None
              else Some (super_Eobjective E vb (sp st3))), st3)"
      using solved[of p1 st3] by blast
  qed
qed

theorem incumbent_None_iff_infeasible_witness:
  "(\<exists>st'. calculate_incumbent small_xenv True PNone
             (small_xhat (infeasible_scenarios (Some 1))) = (Inr None, st') \<and>
      infeas_prob small_xenv (sp st') = 4 / 10) \<and>
   (\<exists>st'. calculate_incumbent small_xenv True PNone
             (small_xhat (small_scenarios (Some 1))) = (Inr (Some (16 / 5)), st') \<and>
      infeas_prob small_xenv (sp st') = 0 \<and>
      Eobjective small_xenv PNone None st' = (Inr (16 / 5), st')) \<and>
   (\<exists>p1 st3.
      fix_nonants_at_value small_xenv
        (sp (lazy_create_solvers small_xenv (small_xhat (small_scenarios (Some 1))))) =
        (None, p1) \<and>
      xe_solve_loop small_xenv (sp_current_solver_options p1) False False False False False
        PNone False False False
        ((lazy_create_solvers small_xenv (small_xhat (small_scenarios (Some 1))))\<lparr>sp := p1\<rparr>) =
        (None, st3))"
proof -
  let ?I = "small_xhat (infeasible_scenarios (Some 1))"
  let ?F = "small_xhat (small_scenarios (Some 1))"
  let ?L = "lazy_create_solvers small_xenv ?F"
  have "\<exists>r st'. calculate_incumbent small_xenv True PNone ?I = (Inr r, st')"
    by (simp add: xhat_run_defs)
  then obtain r1 s1 where h1: "calculate_incumbent small_xenv True PNone ?I = (Inr r1, s1)"
    by blast
  from h1 have v1: "infeas_prob small_xenv (sp s1) = 4 / 10"
    by (auto simp: xhat_run_defs split: if_splits)
  have "\<exists>p1. fix_nonants_at_value small_xenv (sp ?L) = (None, p1)"
    by (simp add: xhat_run_defs)
  then obtain p1 where f: "fix_nonants_at_value small_xenv (sp ?L) = (None, p1)" by blast
  have "\<exists>st3. xe_solve_loop small_xenv (sp_current_solver_options p1) False False False False
      False PNone False False False (?L\<lparr>sp := p1\<rparr>) = (None, st3)"
    using f by (auto simp: xhat_run_defs)
  then obtain st3 where s: "xe_solve_loop small_xenv (sp_current_solver_options p1) False False
      False False False PNone False False False (?L\<lparr>sp := p1\<rparr>) = (None, st3)"
    by blast
  note t1 = incumbent_None_iff_infeasible[of small_xenv True PNone ?I r1 s1]
  from t1 h1 v1 have r1: "r1 = None" by simp
  note t2 = incumbent_None_iff_infeasible[of small_xenv True PNone ?F _ _ p1 st3]
  from t2 f s have h2: "calculate_incumbent small_xenv True PNone ?F =
        (Inr (if infeas_prob small_xenv (sp st3) \<noteq> 0 then None
              else Some (super_Eobjective small_xenv PNone (sp st3))), st3)"
    by simp
  from f s have v2: "infeas_prob small_xenv (sp st3) = 0"
    "super_Eobjective small_xenv PNone (sp st3) = 16 / 5"
    by (auto simp: xhat_run_defs)
  from h2 v2 have h2': "calculate_incumbent small_xenv True PNone ?F = (Inr (Some (16 / 5)), st3)"
    by simp
  from incumbent_None_iff_infeasible[of small_xenv True PNone ?F "Some (16 / 5)" st3] h2' v2
  have e2: "Eobjective small_xenv PNone None st3 = (Inr (16 / 5), st3)" by simp
  show ?thesis
    using h1 r1 v1 h2' v2 e2 f s
    by (intro conjI exI[of _ s1] exI[of _ st3] exI[of _ p1]) simp_all
qed

text \<open>
  C8 (with \<open>_fix_nonants\<close> and the inherited \<open>Eobjective\<close> as the spec describes them).
  \<open>evaluate(nonant_cache, fct)\<close> fixes the non-anticipative variables at the cache,
  solves every local scenario once, and returns the expectation over the ensemble of
  the objective values, of \<open>fct\<close> of them when \<open>fct\<close> is given: the sum over the
  scenarios of probability times value, reduced over the ranks. It returns whenever the
  cache is a full assignment and every solve and objective evaluation goes through.
\<close>

theorem evaluate_returns_expectation:
  "(evaluate (spec_xenv E) cache fct st = (Inr v, st') \<and>
    distinct (map fst (local_scenarios (sp st'))) \<longrightarrow>
      (\<exists>p1. spec_fix_nonants cache (sp (lazy_create_solvers E st)) = (None, p1) \<and>
         local_scenarios (sp st') =
           map (\<lambda>(k, s). (k, snd (super_solve_one E
                  \<lparr>so_solver_options = options_solver_options p1, so_dtiming = False,
                   so_gripe = True, so_tee = False, so_verbose = xe_verbose st,
                   so_disable_pyomo_signal_handling = False, so_update_objective = True,
                   so_warmstart = False, so_need_solution = True\<rparr> k s)))
             (local_scenarios p1) \<and>
         (\<forall>(k, s) \<in> set (local_scenarios (sp st')).
             saved_objective_value E k s = Inr (objective_of E k s)) \<and>
         v = Allreduce_SUM E
               (\<Sum>(k, s)\<leftarrow>local_scenarios (sp st').
                   mpisppy_probability s *
                     (case fct of None \<Rightarrow> objective_of E k s
                                | Some f \<Rightarrow> f (objective_of E k s))))) \<and>
   (spec_fix_nonants cache (sp (lazy_create_solvers E st)) = (None, q) \<and>
    distinct (map fst (local_scenarios q)) \<and>
    (\<forall>(k, s) \<in> set (local_scenarios q). \<exists>t1 s1 x.
        super_solve_one E
          \<lparr>so_solver_options = options_solver_options q, so_dtiming = False,
           so_gripe = True, so_tee = False, so_verbose = xe_verbose st,
           so_disable_pyomo_signal_handling = False, so_update_objective = True,
           so_warmstart = False, so_need_solution = True\<rparr> k s = (Inr t1, s1) \<and>
        saved_objective_value E k s1 = Inr x) \<longrightarrow>
      (\<exists>w st''. evaluate (spec_xenv E) cache fct st = (Inr w, st'')))"
proof (intro conjI impI)
  assume "evaluate (spec_xenv E) cache fct st = (Inr v, st') \<and>
    distinct (map fst (local_scenarios (sp st')))"
  then have ev: "evaluate (spec_xenv E) cache fct st = (Inr v, st')"
    and dist: "distinct (map fst (local_scenarios (sp st')))" by simp_all
  let ?A = "\<lambda>p1. \<lparr>so_solver_options = options_solver_options p1, so_dtiming = False,
                   so_gripe = True, so_tee = False, so_verbose = xe_verbose st,
                   so_disable_pyomo_signal_handling = False, so_update_objective = True,
                   so_warmstart = False, so_need_solution = True\<rparr>"
  have "\<exists>p1 d. spec_fix_nonants cache (sp (lazy_create_solvers E st)) = (None, p1) \<and>
     local_scenarios (sp st') =
       map (\<lambda>(k, s). (k, snd (super_solve_one E (?A p1) k s))) (local_scenarios p1) \<and>
     objs_dict st' = Some d \<and>
     (\<forall>(k, s) \<in> set (local_scenarios (sp st')). saved_objective_value E k s = Inr (the (d k))) \<and>
     Eobjective (spec_xenv E) (xe_verbose st) fct st' = (Inr v, st')"
    using evaluate_Inr[OF ev dist] by simp
  then obtain p1 d where
    f: "spec_fix_nonants cache (sp (lazy_create_solvers E st)) = (None, p1)"
    and ls: "local_scenarios (sp st') =
       map (\<lambda>(k, s). (k, snd (super_solve_one E (?A p1) k s))) (local_scenarios p1)"
    and d: "objs_dict st' = Some d"
    and vals: "\<forall>(k, s) \<in> set (local_scenarios (sp st')).
         saved_objective_value E k s = Inr (the (d k))"
    and eo: "Eobjective (spec_xenv E) (xe_verbose st) fct st' = (Inr v, st')"
    by blast
  from vals have ob: "\<forall>(k, s) \<in> set (local_scenarios (sp st')). objective_of E k s = the (d k)"
    by (auto simp: objective_of_def)
  from evaluate_solvers[of "spec_xenv E" cache fct st] ev
  have "subproblems_solvers_created st'" by simp
  then have l: "lazy_create_solvers E st' = st'" by (rule lazy_create_solvers_idle)
  have v: "v = Allreduce_SUM E
               (\<Sum>(k, s)\<leftarrow>local_scenarios (sp st').
                   mpisppy_probability s *
                     (case fct of None \<Rightarrow> objective_of E k s
                                | Some f \<Rightarrow> f (objective_of E k s)))"
  proof (cases fct)
    case None
    with eo l show ?thesis
      by (simp add: Eobjective_def spec_super_Eobjective_def)
  next
    case (Some g)
    with eo l d obtain xs where
      x: "local_Eobjs g d (local_scenarios (sp st')) = Inr xs"
      and vx: "v = Allreduce_SUM E (sum_list xs)"
      by (auto simp: Eobjective_def split: sum.splits)
    from local_Eobjs_Inr[OF x] have
      "xs = map (\<lambda>(k, s). mpisppy_probability s * g (the (d k))) (local_scenarios (sp st'))"
      by simp
    also have "\<dots> = map (\<lambda>(k, s). mpisppy_probability s * g (objective_of E k s))
        (local_scenarios (sp st'))"
      using ob by (intro map_cong) auto
    finally show ?thesis using vx Some by simp
  qed
  from vals have vals': "\<forall>(k, s) \<in> set (local_scenarios (sp st')).
             saved_objective_value E k s = Inr (objective_of E k s)"
    by (auto simp: objective_of_def)
  from f ls vals' v
  show "\<exists>p1. spec_fix_nonants cache (sp (lazy_create_solvers E st)) = (None, p1) \<and>
         local_scenarios (sp st') =
           map (\<lambda>(k, s). (k, snd (super_solve_one E (?A p1) k s))) (local_scenarios p1) \<and>
         (\<forall>(k, s) \<in> set (local_scenarios (sp st')).
             saved_objective_value E k s = Inr (objective_of E k s)) \<and>
         v = Allreduce_SUM E
               (\<Sum>(k, s)\<leftarrow>local_scenarios (sp st').
                   mpisppy_probability s *
                     (case fct of None \<Rightarrow> objective_of E k s
                                | Some f \<Rightarrow> f (objective_of E k s)))"
    by blast
next
  assume a: "spec_fix_nonants cache (sp (lazy_create_solvers E st)) = (None, q) \<and>
    distinct (map fst (local_scenarios q)) \<and>
    (\<forall>(k, s) \<in> set (local_scenarios q). \<exists>t1 s1 x.
        super_solve_one E
          \<lparr>so_solver_options = options_solver_options q, so_dtiming = False,
           so_gripe = True, so_tee = False, so_verbose = xe_verbose st,
           so_disable_pyomo_signal_handling = False, so_update_objective = True,
           so_warmstart = False, so_need_solution = True\<rparr> k s = (Inr t1, s1) \<and>
        saved_objective_value E k s1 = Inr x)"
  then have f: "fix_nonants (spec_xenv E) cache (sp (lazy_create_solvers (spec_xenv E) st)) =
      (None, q)"
    by simp
  from a have dist: "distinct (map fst (local_scenarios q))" by simp
  from a have ok: "\<forall>(k, s) \<in> set (local_scenarios q). \<exists>t1 s1 x.
        super_solve_one (spec_xenv E)
          \<lparr>so_solver_options = options_solver_options q, so_dtiming = False,
           so_gripe = True, so_tee = False, so_verbose = xe_verbose st,
           so_disable_pyomo_signal_handling = False, so_update_objective = True,
           so_warmstart = False, so_need_solution = True\<rparr> k s = (Inr t1, s1) \<and>
        saved_objective_value (spec_xenv E) k s1 = Inr x"
    by simp
  from evaluate_returns[OF f dist ok]
  show "\<exists>w st''. evaluate (spec_xenv E) cache fct st = (Inr w, st'')" .
qed

theorem evaluate_returns_expectation_witness:
  "(\<exists>q. spec_fix_nonants [''ROOT'' \<mapsto> Some [3]]
           (sp (lazy_create_solvers small_xenv (small_xhat (small_scenarios None)))) =
           (None, q) \<and>
      map (\<lambda>(k, s). map v_value (variables s)) (local_scenarios q) = [[Some 3], [Some 3]]) \<and>
   (\<exists>st'. evaluate (spec_xenv small_xenv) [''ROOT'' \<mapsto> Some [3]] None
             (small_xhat (small_scenarios None)) = (Inr (48 / 5), st') \<and>
      map fst (local_scenarios (sp st')) = [''scen0'', ''scen1''] \<and>
      map (\<lambda>(k, s). objective_of small_xenv k s) (local_scenarios (sp st')) = [6, 15]) \<and>
   (\<exists>st'. evaluate (spec_xenv small_xenv) [''ROOT'' \<mapsto> Some [3]] (Some (\<lambda>x. x * x))
             (small_xhat (small_scenarios None)) = (Inr (558 / 5), st'))"
proof -
  let ?X = "small_xhat (small_scenarios None)"
  let ?C = "[''ROOT'' \<mapsto> Some [3::real]]"
  let ?L = "lazy_create_solvers small_xenv ?X"
  let ?A = "\<lambda>q. \<lparr>so_solver_options = options_solver_options q, so_dtiming = False,
           so_gripe = True, so_tee = False, so_verbose = xe_verbose ?X,
           so_disable_pyomo_signal_handling = False, so_update_objective = True,
           so_warmstart = False, so_need_solution = True\<rparr>"
  have "\<exists>q. spec_fix_nonants ?C (sp ?L) = (None, q)"
    by (simp add: xhat_run_defs)
  then obtain q where f: "spec_fix_nonants ?C (sp ?L) = (None, q)" by blast
  from f have q: "local_scenarios q =
      [(''scen0'', (small_scenario (6 / 10) 2 True None)
          \<lparr>variables := [\<lparr>v_value = Some 3, v_fixed = True, v_integral = False\<rparr>]\<rparr>),
       (''scen1'', (small_scenario (4 / 10) 5 True None)
          \<lparr>variables := [\<lparr>v_value = Some 3, v_fixed = True, v_integral = False\<rparr>]\<rparr>)]"
    by (auto simp: xhat_run_defs)
  from q have dq: "distinct (map fst (local_scenarios q))" by simp
  from q have ok: "\<forall>(k, s) \<in> set (local_scenarios q). \<exists>t1 s1 x.
        super_solve_one small_xenv (?A q) k s = (Inr t1, s1) \<and>
        saved_objective_value small_xenv k s1 = Inr x"
    by (simp add: small_xenv_def unit_cost_objective_def small_scenario_def)
  from q have vq: "map (\<lambda>(k, s). map v_value (variables s)) (local_scenarios q) =
      [[Some 3], [Some 3]]"
    by simp
  note t = evaluate_returns_expectation[where E = small_xenv and cache = ?C and st = ?X
      and q = q]
  from t[where fct = None] f dq ok obtain w1 s1 where
    h1: "evaluate (spec_xenv small_xenv) ?C None ?X = (Inr w1, s1)" by blast
  from t[where fct = "Some (\<lambda>x. x * x)"] f dq ok obtain w2 s2 where
    h2: "evaluate (spec_xenv small_xenv) ?C (Some (\<lambda>x. x * x)) ?X = (Inr w2, s2)" by blast
  from h1 have k1: "local_scenarios (sp s1) = local_scenarios q"
    using q by (auto simp: xhat_run_defs)
  from h2 have k2: "local_scenarios (sp s2) = local_scenarios q"
    using q by (auto simp: xhat_run_defs)
  from k1 dq have d1: "distinct (map fst (local_scenarios (sp s1)))" by simp
  from k2 dq have d2: "distinct (map fst (local_scenarios (sp s2)))" by simp
  have o: "map (\<lambda>(k, s). objective_of small_xenv k s) (local_scenarios q) = [6, 15]"
    "map (\<lambda>(k, s). mpisppy_probability s) (local_scenarios q) = [6 / 10, 4 / 10]"
    unfolding q
    by (simp_all add: objective_of_def small_xenv_def unit_cost_objective_def small_scenario_def)
  have o': "(\<Sum>(k, s)\<leftarrow>local_scenarios q. mpisppy_probability s * objective_of small_xenv k s)
      = 48 / 5"
    "(\<Sum>(k, s)\<leftarrow>local_scenarios q. mpisppy_probability s *
        (objective_of small_xenv k s * objective_of small_xenv k s)) = 558 / 5"
    unfolding q
    by (simp_all add: objective_of_def small_xenv_def unit_cost_objective_def small_scenario_def)
  have ar: "Allreduce_SUM small_xenv = (\<lambda>x. x)" by (simp add: small_xenv_def)
  from t[where fct = None and v = w1 and st' = s1] h1 d1 have
    "w1 = Allreduce_SUM small_xenv
        (\<Sum>(k, s)\<leftarrow>local_scenarios (sp s1). mpisppy_probability s * objective_of small_xenv k s)"
    by auto
  with k1 o' ar have w1: "w1 = 48 / 5" by simp
  from t[where fct = "Some (\<lambda>x. x * x)" and v = w2 and st' = s2] h2 d2 have
    "w2 = Allreduce_SUM small_xenv
        (\<Sum>(k, s)\<leftarrow>local_scenarios (sp s2). mpisppy_probability s *
           (objective_of small_xenv k s * objective_of small_xenv k s))"
    by auto
  with k2 o' ar have w2: "w2 = 558 / 5" by simp
  show ?thesis
  proof (intro conjI)
    from f vq show "\<exists>q. spec_fix_nonants ?C (sp ?L) = (None, q) \<and>
      map (\<lambda>(k, s). map v_value (variables s)) (local_scenarios q) = [[Some 3], [Some 3]]"
      by (intro exI[of _ q]) simp
    from h1 w1 k1 q o show "\<exists>st'. evaluate (spec_xenv small_xenv) ?C None ?X = (Inr (48 / 5), st') \<and>
      map fst (local_scenarios (sp st')) = [''scen0'', ''scen1''] \<and>
      map (\<lambda>(k, s). objective_of small_xenv k s) (local_scenarios (sp st')) = [6, 15]"
      by (intro exI[of _ s1]) simp
    from h2 w2 show "\<exists>st'. evaluate (spec_xenv small_xenv) ?C (Some (\<lambda>x. x * x)) ?X =
        (Inr (558 / 5), st')"
      by (intro exI[of _ s2]) simp
  qed
qed

end
